theory Spec2Isabelle
  imports Complex_Main "HOL-Library.Sublist" "HOL-Library.Multiset"
begin

text \<open>
  A shallow embedding of the standings bot: the fetcher, the table parsers of
  standings.js, the change detection and the command handlers of index.js, and the layout
  arithmetic of render.js. Effects on the chat channel, the network and the clock are
  made explicit: a function takes what the outside world answers and returns the new
  state together with the calls it made, in program order.
\<close>

section \<open>Layout constants of render.js\<close>

definition OUTER_PAD :: int where "OUTER_PAD = 22"
definition GAP :: int where "GAP = 22"
definition HEADER_H :: int where "HEADER_H = 58"
definition HEAD_ROW_H :: int where "HEAD_ROW_H = 26"
definition ROW_H :: int where "ROW_H = 26"
definition MAX_ROWS_PER_COL :: int where "MAX_ROWS_PER_COL = 30"

section \<open>Panel height (render.js, panelHeightForRows and renderTripleStandingsPng)\<close>

text \<open>
  \<^verbatim>\<open>rows || []\<close> turns a missing row array into the empty one, so the argument is an
  optional list; the element type plays no role.
\<close>

definition rows_or_empty :: "'r list option \<Rightarrow> 'r list" where
  "rows_or_empty rows = (case rows of None \<Rightarrow> [] | Some rs \<Rightarrow> rs)"

definition panelHeightForRows :: "'r list option \<Rightarrow> int" where
  "panelHeightForRows rows =
     (let n = int (length (rows_or_empty rows));
          innerTableH = HEAD_ROW_H + ROW_H * n;
          total = OUTER_PAD * 2 + HEADER_H + 8 + innerTableH + 18
      in max 420 total)"

text \<open>The canvas height \<^verbatim>\<open>H\<close> computed at the top of renderTripleStandingsPng.\<close>

definition tripleCanvasH :: "'r list option \<Rightarrow> 'r list option \<Rightarrow> 'r list option \<Rightarrow> int" where
  "tripleCanvasH club50 yellow red =
     max (max (panelHeightForRows club50) (panelHeightForRows yellow)) (panelHeightForRows red)"

section \<open>Button cooldown (index.js, getButtonCooldownSeconds and the InteractionCreate handler)\<close>

definition BUTTON_COOLDOWN_MS :: int where "BUTTON_COOLDOWN_MS = 5 * 60 * 1000"

text \<open>\<^verbatim>\<open>Math.ceil(ms / 1000)\<close> on an integer number of milliseconds.\<close>

definition ceil_seconds :: "int \<Rightarrow> int" where
  "ceil_seconds ms = \<lceil>(of_int ms :: rat) / 1000\<rceil>"

text \<open>The key of the cooldown map is the template string \<^verbatim>\<open>${userId}:${buttonId}\<close>.\<close>

definition cooldown_key :: "string \<Rightarrow> string \<Rightarrow> string" where
  "cooldown_key userId buttonId = userId @ '':'' @ buttonId"

text \<open>
  The module-level \<^verbatim>\<open>buttonCooldowns\<close> map is passed in and returned; \<^verbatim>\<open>Date.now()\<close> is the
  argument \<open>now\<close>. \<^verbatim>\<open>get(key) || 0\<close> reads a missing entry as 0.
\<close>

definition getButtonCooldownSeconds ::
  "(string \<rightharpoonup> int) \<Rightarrow> int \<Rightarrow> string \<Rightarrow> string \<Rightarrow> int \<times> (string \<rightharpoonup> int)" where
  "getButtonCooldownSeconds buttonCooldowns now userId buttonId =
     (let key = cooldown_key userId buttonId;
          last = (case buttonCooldowns key of None \<Rightarrow> 0 | Some t \<Rightarrow> t)
      in if now - last < BUTTON_COOLDOWN_MS
         then (ceil_seconds (BUTTON_COOLDOWN_MS - (now - last)), buttonCooldowns)
         else (0, buttonCooldowns(key \<mapsto> now)))"

record interaction =
  user_id :: string
  customId :: string
  deferred :: bool
  replied :: bool

text \<open>
  The calls the button branch of the handler makes on the interaction, in program order.
  \<open>HandleClassButton\<close> and \<open>HandleSeriesButton\<close> are the two functions that render and post
  an image. A call on the interaction that throws leads to the fail-safe reply of the
  handler, which renders nothing; that path is not part of the model.
\<close>

datatype button_effect =
    DeferReply
  | EditReplyWait int
  | EditReplyUnknownButton
  | AutoDeleteEphemeral int
  | HandleClassButton string
  | HandleSeriesButton string

fun is_render :: "button_effect \<Rightarrow> bool" where
  "is_render (HandleClassButton _) = True"
| "is_render (HandleSeriesButton _) = True"
| "is_render _ = False"

definition safeAck :: "interaction \<Rightarrow> button_effect list" where
  "safeAck i = (if deferred i \<or> replied i then [] else [DeferReply])"

definition button_dispatch :: "string \<Rightarrow> button_effect list" where
  "button_dispatch cid =
     (if cid = ''oor_class_yellow'' then [HandleClassButton ''yellow'']
      else if cid = ''oor_class_red'' then [HandleClassButton ''red'']
      else if cid = ''oor_series_club50'' then [HandleSeriesButton ''club50'']
      else if cid = ''oor_series_yellow'' then [HandleSeriesButton ''yellow'']
      else if cid = ''oor_series_red'' then [HandleSeriesButton ''red'']
      else if cid = ''oor_series_hypercar'' then [HandleSeriesButton ''hypercar'']
      else if cid = ''oor_series_lmgt3'' then [HandleSeriesButton ''lmgt3'']
      else [EditReplyUnknownButton, AutoDeleteEphemeral 10000])"

definition onButtonInteraction ::
  "(string \<rightharpoonup> int) \<Rightarrow> int \<Rightarrow> interaction \<Rightarrow> button_effect list \<times> (string \<rightharpoonup> int)" where
  "onButtonInteraction buttonCooldowns now i =
     (let ack = safeAck i;
          (wait, cds) = getButtonCooldownSeconds buttonCooldowns now (user_id i) (customId i)
      in if wait > 0
         then (ack @ [EditReplyWait wait, AutoDeleteEphemeral 5000], cds)
         else (ack @ button_dispatch (customId i), cds))"

section \<open>The /refresh command (index.js, handleRefreshCommand)\<close>

definition REFRESH_COOLDOWN_MS :: int where "REFRESH_COOLDOWN_MS = 30000"

record refresh_state =
  refreshLock :: bool
  lastRefreshAt :: int

text \<open>
  Every awaited call of the handler may throw; the environment says which ones return.
  \<open>channel_ok\<close> also covers the check that the fetched channel is text based.
\<close>

record refresh_env =
  defer_ok :: bool
  early_reply_ok :: bool
  channel_ok :: bool
  scrape_ok :: bool
  render_post_ok :: bool
  simgrid_ok :: bool
  done_reply_ok :: bool
  fail_reply_ok :: bool

datatype refresh_effect =
    RDeferReply
  | RWaitReply int
  | RBusyReply
  | RAutoDelete int
  | RSetLock bool
  | RFetchChannel
  | RScrapeAll
  | RRenderAndPostMain
  | RCheckAndPostSimgrid bool
  | RDoneReply bool
  | RFailReply

fun is_refresh_work :: "refresh_effect \<Rightarrow> bool" where
  "is_refresh_work RFetchChannel = True"
| "is_refresh_work RScrapeAll = True"
| "is_refresh_work RRenderAndPostMain = True"
| "is_refresh_work (RCheckAndPostSimgrid _) = True"
| "is_refresh_work _ = False"

text \<open>
  The body of the \<^verbatim>\<open>try\<close> block: the effects it performs and whether it ended by throwing.
\<close>

definition refresh_try :: "refresh_env \<Rightarrow> refresh_effect list \<times> bool" where
  "refresh_try env =
     (if \<not> channel_ok env then ([RFetchChannel], True)
      else if \<not> scrape_ok env then ([RFetchChannel, RScrapeAll], True)
      else if \<not> render_post_ok env then ([RFetchChannel, RScrapeAll, RRenderAndPostMain], True)
      else if \<not> done_reply_ok env
        then ([RFetchChannel, RScrapeAll, RRenderAndPostMain, RCheckAndPostSimgrid True,
               RDoneReply (simgrid_ok env)], True)
      else ([RFetchChannel, RScrapeAll, RRenderAndPostMain, RCheckAndPostSimgrid True,
             RDoneReply (simgrid_ok env), RAutoDelete 10000], False))"

text \<open>The \<^verbatim>\<open>catch\<close> block: it replies, and the reply itself may throw.\<close>

definition refresh_catch :: "refresh_env \<Rightarrow> refresh_effect list \<times> bool" where
  "refresh_catch env =
     (if fail_reply_ok env then ([RFailReply, RAutoDelete 10000], False) else ([RFailReply], True))"

text \<open>
  The result is the state after the call, the effects in program order and whether the
  call ended by throwing. The \<^verbatim>\<open>finally\<close> block runs on every way out of the
  \<^verbatim>\<open>try\<close>/\<^verbatim>\<open>catch\<close>.
\<close>

definition handleRefreshCommand ::
  "refresh_state \<Rightarrow> int \<Rightarrow> refresh_env \<Rightarrow> refresh_state \<times> refresh_effect list \<times> bool" where
  "handleRefreshCommand st now env =
     (if \<not> defer_ok env then (st, [RDeferReply], True)
      else if now - lastRefreshAt st < REFRESH_COOLDOWN_MS then
        (let wait = ceil_seconds (REFRESH_COOLDOWN_MS - (now - lastRefreshAt st))
         in if early_reply_ok env
            then (st, [RDeferReply, RWaitReply wait, RAutoDelete 10000], False)
            else (st, [RDeferReply, RWaitReply wait], True))
      else if refreshLock st then
        (if early_reply_ok env
         then (st, [RDeferReply, RBusyReply, RAutoDelete 10000], False)
         else (st, [RDeferReply, RBusyReply], True))
      else
        (let st1 = st\<lparr>refreshLock := True, lastRefreshAt := now\<rparr>;
             (tried, threw) = refresh_try env;
             (caught, rethrown) = (if threw then refresh_catch env else ([], False));
             st2 = st1\<lparr>refreshLock := False\<rparr>
         in (st2, [RDeferReply, RSetLock True] @ tried @ caught @ [RSetLock False], rethrown)))"

section \<open>Strings\<close>

text \<open>
  A JavaScript string is modelled as the list of its Unicode code points; \<open>js\<close> turns an
  ASCII literal into such a list. \<open>str_includes s k\<close> is \<^verbatim>\<open>s.includes(k)\<close>.
\<close>

type_synonym jstring = "nat list"

definition js :: "string \<Rightarrow> jstring" where
  "js s = map of_char s"

fun str_includes :: "'a list \<Rightarrow> 'a list \<Rightarrow> bool" where
  "str_includes [] k = (k = [])"
| "str_includes (c # cs) k = (prefix k (c # cs) \<or> str_includes cs k)"

section \<open>Fetching a page (index.js, fetchHtmlWithRetry)\<close>

definition MARKER :: jstring where
  "MARKER = js ''PageContent_TeamsView_DXMainTable''"

text \<open>
  What one call of \<^verbatim>\<open>fetch\<close> does: it rejects, or it answers with \<^verbatim>\<open>res.ok\<close>,
  \<^verbatim>\<open>res.status\<close> and a body; reading the body with \<^verbatim>\<open>res.text()\<close> may reject as well
  (body \<open>None\<close>).
\<close>

datatype response = FetchRejected string | Response bool nat "jstring option"

datatype fetch_error =
    FetchUnavailable
  | NetworkError string
  | FetchFailedStatus nat
  | BodyReadError
  | MissingMarker
  | FetchFailed

text \<open>The body of the \<^verbatim>\<open>try\<close> block of one loop iteration.\<close>

fun attempt :: "response \<Rightarrow> fetch_error + jstring" where
  "attempt (FetchRejected m) = Inl (NetworkError m)"
| "attempt (Response ok status body) =
     (if \<not> ok then Inl (FetchFailedStatus status)
      else case body of
             None \<Rightarrow> Inl BodyReadError
           | Some text \<Rightarrow> if \<not> str_includes text MARKER then Inl MissingMarker else Inr text)"

text \<open>
  The \<^verbatim>\<open>for\<close> loop. \<open>net i\<close> is the answer to the fetch of iteration \<open>i\<close>; the list
  collects the arguments of the calls of \<^verbatim>\<open>sleep\<close>, in order.
\<close>

function fetch_loop ::
  "(nat \<Rightarrow> response) \<Rightarrow> nat \<Rightarrow> nat \<Rightarrow> fetch_error option \<Rightarrow> int list
     \<Rightarrow> (fetch_error + jstring) \<times> int list" where
  "fetch_loop net attempts i lastErr sleeps =
     (if i < attempts then
        (case attempt (net i) of
           Inr text \<Rightarrow> (Inr text, sleeps)
         | Inl e \<Rightarrow>
             fetch_loop net attempts (i + 1) (Some e)
               (if int i < int attempts - 1 then sleeps @ [700 + int i * 500] else sleeps))
      else (Inl (case lastErr of Some e \<Rightarrow> e | None \<Rightarrow> FetchFailed), sleeps))"
  by pat_completeness auto
termination
  by (relation "measure (\<lambda>(net, attempts, i, lastErr, sleeps). attempts - i)") auto

definition fetchHtmlWithRetry ::
  "bool \<Rightarrow> (nat \<Rightarrow> response) \<Rightarrow> nat option \<Rightarrow> (fetch_error + jstring) \<times> int list" where
  "fetchHtmlWithRetry fetch_is_function net attempts_arg =
     (let attempts = (case attempts_arg of None \<Rightarrow> 3 | Some n \<Rightarrow> n)
      in if \<not> fetch_is_function then (Inl FetchUnavailable, [])
         else fetch_loop net attempts 0 None [])"

section \<open>Single-series render (render.js, renderSeriesOnlyPng)\<close>

text \<open>
  A panel as the renderers receive it. \<open>p_rows\<close> is \<open>None\<close> when the property is not an
  array; \<open>p_tint\<close> and \<open>p_mode\<close> are \<open>None\<close> when undefined.
\<close>

record 'r panel =
  p_title :: jstring
  p_subtitle :: jstring
  p_rows :: "'r list option"
  p_tint :: "jstring option"
  p_mode :: "jstring option"

text \<open>One call of drawPanel: the rectangle, the texts and the rows it is given to draw.\<close>

record 'r draw_call =
  dc_x :: int
  dc_y :: int
  dc_w :: int
  dc_h :: int
  dc_title :: jstring
  dc_subtitle :: jstring
  dc_rows :: "'r list"
  dc_tint :: "jstring option"
  dc_mode :: jstring

text \<open>The canvas that is serialised: its size and the drawPanel calls made on it.\<close>

record 'r canvas =
  canvas_W :: int
  canvas_H :: int
  drawn :: "'r draw_call list"

text \<open>
  \<^verbatim>\<open>opts.maxRowsPerCol\<close> is \<open>None\<close> when it is absent or not a finite number
  (\<^verbatim>\<open>Number.isFinite\<close> fails), otherwise the number.
\<close>

definition maxRowsPerCol :: "rat option \<Rightarrow> int" where
  "maxRowsPerCol opt =
     (case opt of None \<Rightarrow> MAX_ROWS_PER_COL | Some v \<Rightarrow> max 5 \<lfloor>v\<rfloor>)"

definition heightFor :: "'r list \<Rightarrow> int" where
  "heightFor rs = max 360 (HEADER_H + 8 + HEAD_ROW_H + ROW_H * int (length rs) + 28)"

definition default_panel :: "'r panel" where
  "default_panel = \<lparr>p_title = [8212], p_subtitle = [], p_rows = Some [], p_tint = None,
                    p_mode = Some (js ''default'')\<rparr>"

definition renderSeriesOnlyPng :: "'r panel option \<Rightarrow> rat option \<Rightarrow> 'r canvas" where
  "renderSeriesOnlyPng panel opt =
     (let m = maxRowsPerCol opt;
          P = (case panel of None \<Rightarrow> default_panel | Some p \<Rightarrow> p);
          rs = (case p_rows P of None \<Rightarrow> [] | Some l \<Rightarrow> l);
          md = (case p_mode P of None \<Rightarrow> js ''default''
                | Some s \<Rightarrow> if s = [] then js ''default'' else s);
          needsTwo = (int (length rs) > m);
          leftRows = take (nat m) rs;
          rightRows = (if needsTwo then take (nat m) (drop (nat m) rs) else [])
      in if \<not> needsTwo then
           (let W = 900;
                panelW = W - OUTER_PAD * 2;
                panelH = heightFor leftRows;
                H = OUTER_PAD * 2 + panelH
            in \<lparr>canvas_W = W, canvas_H = H,
                 drawn = [\<lparr>dc_x = OUTER_PAD, dc_y = OUTER_PAD, dc_w = panelW, dc_h = panelH,
                           dc_title = p_title P, dc_subtitle = p_subtitle P, dc_rows = leftRows,
                           dc_tint = p_tint P, dc_mode = md\<rparr>]\<rparr>)
         else
           (let W = 1200;
                panelW = (W - OUTER_PAD * 2 - GAP) div 2;
                panelH = max (heightFor leftRows) (heightFor rightRows);
                H = OUTER_PAD * 2 + panelH
            in \<lparr>canvas_W = W, canvas_H = H,
                 drawn = [\<lparr>dc_x = OUTER_PAD, dc_y = OUTER_PAD, dc_w = panelW, dc_h = panelH,
                           dc_title = p_title P, dc_subtitle = p_subtitle P, dc_rows = leftRows,
                           dc_tint = p_tint P, dc_mode = md\<rparr>,
                          \<lparr>dc_x = OUTER_PAD + panelW + GAP, dc_y = OUTER_PAD, dc_w = panelW,
                           dc_h = panelH, dc_title = p_title P, dc_subtitle = p_subtitle P,
                           dc_rows = rightRows, dc_tint = p_tint P, dc_mode = md\<rparr>]\<rparr>))"

section \<open>White space and decimal numerals\<close>

text \<open>
  The code points that \<^verbatim>\<open>\s\<close> matches and that \<^verbatim>\<open>trim()\<close> strips: the white space
  and line terminator characters of ECMAScript.
\<close>

definition is_space :: "nat \<Rightarrow> bool" where
  "is_space c \<longleftrightarrow>
     c \<in> {9, 10, 11, 12, 13, 32, 160, 5760, 8232, 8233, 8239, 8287, 12288, 65279}
     \<or> (8192 \<le> c \<and> c \<le> 8202)"

definition js_trim :: "jstring \<Rightarrow> jstring" where
  "js_trim s = rev (dropWhile is_space (rev (dropWhile is_space s)))"

text \<open>\<^verbatim>\<open>String(n)\<close> for a natural number and for an integer.\<close>

function dec :: "nat \<Rightarrow> jstring" where
  "dec n = (if n < 10 then [48 + n] else dec (n div 10) @ [48 + n mod 10])"
  by pat_completeness auto
termination
  by (relation "measure id") auto

declare dec.simps [simp del]

definition dec_int :: "int \<Rightarrow> jstring" where
  "dec_int i = (if i < 0 then 45 # dec (nat (- i)) else dec (nat i))"

section \<open>Change detection (index.js, checkAndPostSimgrid; earlier index.js, applyUpdate)\<close>

text \<open>
  The persisted configuration. An absent field and the empty string are both falsy and
  are both written \<open>[]\<close>. applyUpdate uses the first group of four fields,
  checkAndPostSimgrid the fields prefixed simgrid.
\<close>

record config =
  messageId :: jstring
  lastHash :: jstring
  lastUpdated :: jstring
  lastChecked :: jstring
  simgridMessageId :: jstring
  simgridLastHash :: jstring
  simgridLastUpdated :: jstring
  simgridLastChecked :: jstring
  simgridHypercarUrl :: jstring
  simgridLmgt3Url :: jstring

text \<open>\<^verbatim>\<open>a || b\<close> on strings.\<close>

definition or_else :: "jstring \<Rightarrow> jstring \<Rightarrow> jstring" where
  "or_else a b = (if a = [] then b else a)"

text \<open>\<^verbatim>\<open>discordTimestamp(date, "F")\<close>, the date given by \<^verbatim>\<open>date.getTime()\<close>.\<close>

definition discordTimestamp :: "int \<Rightarrow> jstring" where
  "discordTimestamp ms = js ''<t:'' @ dec_int (ms div 1000) @ js '':F>''"

text \<open>The two timestamps that make up the text of the tracked message.\<close>

record content =
  shown_updated :: jstring
  shown_checked :: jstring

text \<open>
  The calls on the chat channel and on the renderer, in program order. \<open>EditText\<close> is
  \<^verbatim>\<open>existing.edit({content, components})\<close>, which keeps the attachment; \<open>EditImage\<close> and
  \<open>SendImage\<close> carry \<^verbatim>\<open>files: [attachment]\<close>.
\<close>

datatype post_effect =
    FetchMessage jstring
  | EditText jstring content
  | Render
  | EditImage jstring content
  | SendImage content
  | SaveConfig

text \<open>
  What the outside world answers during one run: whether each awaited call returns
  (\<open>True\<close>) or throws, and the id of a newly sent message (\<open>None\<close> when sending throws).
  The scrape results are \<open>None\<close> when fetchSimgridStandings throws.
\<close>

record 'r post_env =
  hyper_scrape :: "'r list option"
  lmgt3_scrape :: "'r list option"
  text_fetch_ok :: bool
  text_edit_ok :: bool
  render_ok :: bool
  image_fetch_ok :: bool
  image_edit_ok :: bool
  send_result :: "jstring option"

text \<open>
  The tail of checkAndPostSimgrid from \<^verbatim>\<open>// Render image\<close> on: render, then edit the tracked
  message with the new image, or send a new message when there is none or the edit fails.
  The result is the configuration, the effects and whether the function threw.
\<close>

definition simgrid_render_and_post ::
  "config \<Rightarrow> 'r post_env \<Rightarrow> jstring \<Rightarrow> content \<Rightarrow> config \<times> post_effect list \<times> bool" where
  "simgrid_render_and_post cfg env dataHash c =
     (if \<not> render_ok env then (cfg, [Render], True)
      else
        (let saved = cfg\<lparr>simgridLastHash := dataHash, simgridLastUpdated := shown_updated c,
                          simgridLastChecked := shown_checked c\<rparr>;
             mid = simgridMessageId cfg;
             try_edit = (if mid = [] then []
                         else if \<not> image_fetch_ok env then [FetchMessage mid]
                         else [FetchMessage mid, EditImage mid c])
         in if mid \<noteq> [] \<and> image_fetch_ok env \<and> image_edit_ok env
            then (saved, Render # try_edit @ [SaveConfig], False)
            else (case send_result env of
                    None \<Rightarrow> (cfg, Render # try_edit @ [SendImage c], True)
                  | Some new_id \<Rightarrow>
                      (saved\<lparr>simgridMessageId := new_id\<rparr>,
                       Render # try_edit @ [SendImage c, SaveConfig], False))))"

text \<open>
  checkAndPostSimgrid. The runtime cache \<^verbatim>\<open>latestSimgrid\<close> that it refreshes on the way is
  read by the button handlers only and is left out. \<open>digest h l\<close> stands for
  \<^verbatim>\<open>sha1(JSON.stringify({ hyper: h, lmgt3: l }))\<close> and \<open>url_like r\<close> for the test of the
  driver name of row \<open>r\<close> against \<^verbatim>\<open>/https?:\/\//i\<close>; \<open>now\<close> is \<^verbatim>\<open>new Date().getTime()\<close>.
\<close>

definition checkAndPostSimgrid ::
  "('r list \<Rightarrow> 'r list \<Rightarrow> jstring) \<Rightarrow> ('r \<Rightarrow> bool) \<Rightarrow> config \<Rightarrow> 'r post_env \<Rightarrow> bool \<Rightarrow> int
     \<Rightarrow> config \<times> post_effect list \<times> bool" where
  "checkAndPostSimgrid digest url_like cfg env force now =
     (let hyperUrl = js_trim (simgridHypercarUrl cfg);
          lmgt3Url = js_trim (simgridLmgt3Url cfg)
      in if hyperUrl = [] \<or> lmgt3Url = [] then (cfg, [], False)
         else case hyper_scrape env of
           None \<Rightarrow> (cfg, [], True)
         | Some hyper \<Rightarrow>
         (case lmgt3_scrape env of
           None \<Rightarrow> (cfg, [], True)
         | Some lmgt3 \<Rightarrow>
           (let lastCheckedStr = discordTimestamp now
            in if filter url_like hyper \<noteq> [] \<or> filter url_like lmgt3 \<noteq> [] then (cfg, [], True)
               else
                 (let dataHash = digest hyper lmgt3;
                      unchanged = (simgridLastHash cfg \<noteq> [] \<and> simgridLastHash cfg = dataHash);
                      lastUpdatedStr = (if unchanged then or_else (simgridLastUpdated cfg) lastCheckedStr
                                        else discordTimestamp now);
                      shouldRender = (force \<or> \<not> unchanged \<or> simgridMessageId cfg = []);
                      c = \<lparr>shown_updated = lastUpdatedStr, shown_checked = lastCheckedStr\<rparr>;
                      mid = simgridMessageId cfg
                  in if \<not> shouldRender \<and> unchanged \<and> mid \<noteq> [] then
                       (if \<not> text_fetch_ok env then
                          (let (cfg', es, threw) = simgrid_render_and_post cfg env dataHash c
                           in (cfg', FetchMessage mid # es, threw))
                        else if \<not> text_edit_ok env then
                          (let (cfg', es, threw) = simgrid_render_and_post cfg env dataHash c
                           in (cfg', FetchMessage mid # EditText mid c # es, threw))
                        else
                          (cfg\<lparr>simgridLastChecked := lastCheckedStr,
                               simgridLastUpdated := or_else (simgridLastUpdated cfg) lastUpdatedStr\<rparr>,
                           [FetchMessage mid, EditText mid c, SaveConfig], False))
                     else simgrid_render_and_post cfg env dataHash c))))"

text \<open>
  applyUpdate of the earlier index.js. \<open>dataHash\<close> is
  \<^verbatim>\<open>sha1(JSON.stringify({ club50, yellow, red }))\<close>, \<open>nowDate\<close> is \<^verbatim>\<open>nowDate.getTime()\<close>. It
  uses \<open>text_fetch_ok\<close> for the one fetch of the tracked message, \<open>text_edit_ok\<close> and
  \<open>image_edit_ok\<close> for the two edits.
\<close>

definition applyUpdate ::
  "config \<Rightarrow> 'r post_env \<Rightarrow> jstring \<Rightarrow> int \<Rightarrow> config \<times> post_effect list \<times> bool" where
  "applyUpdate cfg env dataHash nowDate =
     (let lastCheckedStr = discordTimestamp nowDate;
          unchanged = (lastHash cfg \<noteq> [] \<and> lastHash cfg = dataHash);
          lastUpdatedStr = (if unchanged then or_else (lastUpdated cfg) lastCheckedStr
                            else discordTimestamp nowDate);
          mid = messageId cfg;
          existing = (mid \<noteq> [] \<and> text_fetch_ok env);
          fetched = (if mid \<noteq> [] then [FetchMessage mid] else []);
          c = \<lparr>shown_updated = lastUpdatedStr, shown_checked = lastCheckedStr\<rparr>;
          persisted = (if unchanged then cfg\<lparr>lastChecked := lastCheckedStr, lastHash := dataHash\<rparr>
                       else cfg\<lparr>lastChecked := lastCheckedStr, lastUpdated := lastUpdatedStr,
                                lastHash := dataHash\<rparr>)
      in if existing then
           (if unchanged then
              (if \<not> text_edit_ok env then (cfg, fetched @ [EditText mid c], True)
               else (persisted, fetched @ [EditText mid c, SaveConfig], False))
            else
              (if \<not> render_ok env then (cfg, fetched @ [Render], True)
               else if \<not> image_edit_ok env then (cfg, fetched @ [Render, EditImage mid c], True)
               else (persisted, fetched @ [Render, EditImage mid c, SaveConfig], False)))
         else
           (if \<not> render_ok env then (cfg, fetched @ [Render], True)
            else case send_result env of
                   None \<Rightarrow> (cfg, fetched @ [Render, SendImage c], True)
                 | Some new_id \<Rightarrow>
                     ((if unchanged
                       then cfg\<lparr>messageId := new_id, lastChecked := lastCheckedStr,
                                lastUpdated := or_else (lastUpdated cfg) lastUpdatedStr,
                                lastHash := dataHash\<rparr>
                       else cfg\<lparr>messageId := new_id, lastChecked := lastCheckedStr,
                                lastUpdated := lastUpdatedStr, lastHash := dataHash\<rparr>),
                      fetched @ [Render, SendImage c, SaveConfig], False)))"

section \<open>Standings rows and numbers (index.js, toNumber)\<close>

text \<open>
  One parsed standings row. The record is extensible, so that a row carrying further
  properties (rating, penalty points, ...) keeps them under \<^verbatim>\<open>{ ...r, pos: p, diff: d }\<close>.
\<close>

record row =
  pos :: jstring
  driver :: jstring
  carNo :: jstring
  className :: jstring
  carImg :: jstring
  racePts :: jstring
  qualiPts :: jstring
  flPts :: jstring
  total :: jstring
  nett :: jstring
  diff :: jstring

definition is_digit :: "nat \<Rightarrow> bool" where
  "is_digit c \<longleftrightarrow> 48 \<le> c \<and> c \<le> 57"

text \<open>
  \<^verbatim>\<open>toLowerCase()\<close> on the ASCII letters and on the two other code points whose lower
  case contains an ASCII letter (U+0130 and the Kelvin sign U+212A). Any other code point
  is left as it is, which changes neither a comparison with an ASCII word nor a search
  for one.
\<close>

definition lower_char :: "nat \<Rightarrow> jstring" where
  "lower_char c =
     (if 65 \<le> c \<and> c \<le> 90 then [c + 32]
      else if c = 304 then [105, 775]
      else if c = 8490 then [107]
      else [c])"

definition to_lower :: "jstring \<Rightarrow> jstring" where
  "to_lower s = concat (map lower_char s)"







section \<open>Class split (index.js, buildClassPanels)\<close>










section \<open>Column scaling (render.js, buildScaledColumns)\<close>

text \<open>
  A table column, and a scaled column, which also carries the scaled width \<open>wf\<close> before
  rounding. Numbers that are not integers are exact rationals.
\<close>

record col =
  c_key :: jstring
  c_label :: jstring
  c_w :: int
  c_align :: jstring

record scaled_col = col +
  wf :: rat





section \<open>Normalising text (standings.js: norm, cleanText)\<close>

text \<open>\<^verbatim>\<open>replace(/\s+/g, " ")\<close>: every maximal run of white space becomes one space.\<close>

function collapse_ws :: "jstring \<Rightarrow> jstring" where
  "collapse_ws [] = []"
| "collapse_ws (c # cs) =
     (if is_space c then 32 # collapse_ws (dropWhile is_space cs) else c # collapse_ws cs)"
  by pat_completeness auto
termination
  by (relation "measure length") (auto simp: length_dropWhile_le less_Suc_eq_le)

definition norm_text :: "jstring \<Rightarrow> jstring" where
  "norm_text s = to_lower (js_trim (collapse_ws s))"

definition cleanText :: "jstring \<Rightarrow> jstring" where
  "cleanText t = js_trim (map (\<lambda>c. if c = 160 then 32 else c) (collapse_ws t))"

section \<open>Locating the standings table (standings.js)\<close>

text \<open>
  The document is seen through the queries the code makes. A cell gives the text of its
  first \<^verbatim>\<open>.dx-ellipsis\<close> descendant (empty when there is none), its own text, the text of
  its first link, the \<^verbatim>\<open>src\<close> of its first image and whether it contains a link, an image
  or a script. A row gives its id, the number of header cells below it, its text and its
  child cells. A table gives all its rows and its data rows, in document order.
\<close>

record td =
  td_ellipsis :: jstring
  td_text :: jstring
  td_a_text :: jstring
  td_img_src :: "jstring option"
  td_has_a_img_script :: bool

record tr =
  tr_id :: jstring
  tr_header_cells :: nat
  tr_text :: jstring
  tr_tds :: "td list"

record dx_table =
  tbl_trs :: "tr list"
  tbl_data_rows :: "tr list"

definition extractHeaderCells :: "tr \<Rightarrow> jstring list" where
  "extractHeaderCells headerRow =
     map (\<lambda>c. js_trim (collapse_ws (if td_ellipsis c = [] then td_text c else td_ellipsis c)))
       (tr_tds headerRow)"

text \<open>
  findHeaderRow: the first row whose id ends in \<^verbatim>\<open>_DXHeadersRow0\<close>, else the first row with
  at least 3 header cells whose normalised text includes "driver"; \<open>None\<close> is the empty
  selection.
\<close>

definition findHeaderRow :: "dx_table \<Rightarrow> tr option" where
  "findHeaderRow t =
     (case find (\<lambda>r. suffix (js ''_DXHeadersRow0'') (tr_id r)) (tbl_trs t) of
        Some r \<Rightarrow> Some r
      | None \<Rightarrow>
          find (\<lambda>r. \<not> tr_header_cells r < 3 \<and> str_includes (norm_text (tr_text r)) (js ''driver''))
            (tbl_trs t))"

definition some_header :: "(jstring \<Rightarrow> bool) \<Rightarrow> jstring list \<Rightarrow> bool" where
  "some_header P hn = list_ex P hn"

text \<open>A term \<^verbatim>\<open>(cond ? k : 0)\<close> of the score.\<close>

definition bonus :: "bool \<Rightarrow> rat \<Rightarrow> rat" where
  "bonus cond k = (if cond then k else 0)"

text \<open>
  The body of the callback of \<^verbatim>\<open>dxTables.each\<close> up to the comparison: \<open>None\<close> when it
  returns early, otherwise the score of the table.
\<close>

definition table_score :: "dx_table \<Rightarrow> rat option" where
  "table_score t =
     (if length (tbl_data_rows t) < 2 then None
      else case findHeaderRow t of
        None \<Rightarrow> None
      | Some headerRow \<Rightarrow>
          (let hn = map norm_text (extractHeaderCells headerRow);
               hasDriver = some_header (\<lambda>h. h = js ''driver'' \<or> str_includes h (js ''driver'')) hn
           in if \<not> hasDriver then None
              else Some (
                bonus (some_header (\<lambda>h. str_includes h (js ''car#'')
                                      \<or> str_includes h (js ''car #'')) hn) 2 +
                bonus (some_header (\<lambda>h. h = js ''class''
                                      \<or> str_includes h (js ''class'')) hn) 2 +
                bonus (some_header (\<lambda>h. h = js ''car'') hn) 1 +
                bonus (some_header (\<lambda>h. str_includes h (js ''race'')) hn) 1 +
                bonus (some_header (\<lambda>h. str_includes h (js ''quali'')
                                      \<or> str_includes h (js ''qual'')) hn) 1 +
                bonus (some_header (\<lambda>h. str_includes h (js ''fastest'')
                                      \<or> h = js ''fl'') hn) 1 +
                bonus (some_header (\<lambda>h. str_includes h (js ''nett'')
                                      \<or> str_includes h (js ''net'')) hn) 2 +
                bonus (some_header (\<lambda>h. str_includes h (js ''total'')) hn) 1 +
                bonus (some_header (\<lambda>h. str_includes h (js ''diff'')) hn) 1 +
                of_nat (min (length (tbl_data_rows t)) 50) / 50)))"

text \<open>
  The loop over the tables with its two variables \<open>best\<close> and \<open>bestScore\<close>, which start as
  \<^verbatim>\<open>null\<close> and -1.
\<close>

fun pick_loop :: "dx_table list \<Rightarrow> dx_table option \<Rightarrow> rat \<Rightarrow> dx_table option" where
  "pick_loop [] best bestScore = best"
| "pick_loop (t # ts) best bestScore =
     (case table_score t of
        None \<Rightarrow> pick_loop ts best bestScore
      | Some score \<Rightarrow>
          if score > bestScore then pick_loop ts (Some t) score
          else pick_loop ts best bestScore)"

text \<open>The argument is the selection \<^verbatim>\<open>$("table[id$='_DXMainTable']")\<close>.\<close>

definition pickBestDxGridTable :: "dx_table list \<Rightarrow> dx_table option" where
  "pickBestDxGridTable dxTables = (if dxTables = [] then None else pick_loop dxTables None (- 1))"

fun findIndex :: "('a \<Rightarrow> bool) \<Rightarrow> 'a list \<Rightarrow> int" where
  "findIndex P [] = - 1"
| "findIndex P (x # xs) =
     (if P x then 0 else (let i = findIndex P xs in if i < 0 then - 1 else i + 1))"

record col_map =
  m_pos :: int
  m_driver :: int
  m_carNo :: int
  m_className :: int
  m_carImg :: int
  m_racePts :: int
  m_qualiPts :: int
  m_flPts :: int
  m_total :: int
  m_nett :: int
  m_diff :: int

definition mapColumnIndexes :: "jstring list \<Rightarrow> col_map" where
  "mapColumnIndexes headers =
     (let h = map norm_text headers
      in \<lparr>m_pos = findIndex (\<lambda>x. x = js ''#'' \<or> x = js ''pos'' \<or> x = js ''position'') h,
          m_driver = findIndex (\<lambda>x. x = js ''driver'' \<or> str_includes x (js ''driver'')) h,
          m_carNo = findIndex (\<lambda>x. str_includes x (js ''car#'') \<or> str_includes x (js ''car #'')) h,
          m_className = findIndex (\<lambda>x. x = js ''class'' \<or> str_includes x (js ''class'')) h,
          m_carImg = findIndex (\<lambda>x. x = js ''car'') h,
          m_racePts = findIndex (\<lambda>x. x = js ''race'' \<or> str_includes x (js ''race points'')) h,
          m_qualiPts = findIndex (\<lambda>x. x = js ''quali'' \<or> str_includes x (js ''quali points'')
                                      \<or> str_includes x (js ''qualifying'')) h,
          m_flPts = findIndex (\<lambda>x. x = js ''fl'' \<or> str_includes x (js ''fastest lap'')) h,
          m_total = findIndex (\<lambda>x. x = js ''total'' \<or> str_includes x (js ''total'')) h,
          m_nett = findIndex (\<lambda>x. str_includes x (js ''nett'') \<or> x = js ''net''
                                   \<or> str_includes x (js ''net points'')) h,
          m_diff = findIndex (\<lambda>x. str_includes x (js ''diff'')) h\<rparr>)"

definition cleanWeirdDevExpressText :: "jstring \<Rightarrow> jstring" where
  "cleanWeirdDevExpressText txt =
     (let s = js_trim txt
      in if s = [] then []
         else if prefix (js ''<!--'') s \<or> str_includes s (js ''ASPx.AddDisabledItems'') then []
         else js_trim (collapse_ws s))"

text \<open>A cell argument is \<open>None\<close> for \<^verbatim>\<open>null\<close> and for an empty selection.\<close>

definition cellText :: "td option \<Rightarrow> jstring" where
  "cellText cell =
     (case cell of
        None \<Rightarrow> []
      | Some c \<Rightarrow>
          (let aTxt = js_trim (td_a_text c)
           in if aTxt \<noteq> [] then cleanWeirdDevExpressText aTxt
              else cleanWeirdDevExpressText (td_text c)))"

definition cellImageSrc :: "td option \<Rightarrow> jstring" where
  "cellImageSrc cell =
     (case cell of
        None \<Rightarrow> []
      | Some c \<Rightarrow> (case td_img_src c of None \<Rightarrow> [] | Some src \<Rightarrow> js_trim src))"

definition alignHeadersToData :: "jstring list \<Rightarrow> nat \<Rightarrow> jstring list" where
  "alignHeadersToData headers dataTdCount =
     take dataTdCount headers @ replicate (dataTdCount - length headers) []"

definition trimTrailingUtilityColumn :: "jstring list \<Rightarrow> td list \<Rightarrow> jstring list \<times> bool" where
  "trimTrailingUtilityColumn headers firstRowTds =
     (if headers = [] then (headers, False)
      else if js_trim (last headers) \<noteq> [] then (headers, False)
      else
        (let hasDxScript =
               (case firstRowTds of
                  [] \<Rightarrow> False
                | _ \<Rightarrow>
                    (let lastTd = last firstRowTds; lastTxt = norm_text (td_text lastTd)
                     in str_includes lastTxt (js ''aspx.adddisableditems'')
                        \<or> str_includes lastTxt (js ''dxr.axd'') \<or> td_has_a_img_script lastTd))
         in if hasDxScript then (butlast headers, True) else (headers, False)))"

definition getCell :: "td list \<Rightarrow> int \<Rightarrow> td option" where
  "getCell tds idx = (if 0 \<le> idx \<and> nat idx < length tds then Some (tds ! nat idx) else None)"

definition parse_row :: "col_map \<Rightarrow> bool \<Rightarrow> tr \<Rightarrow> row" where
  "parse_row colMap trimLast r =
     (let tds = (if trimLast \<and> tr_tds r \<noteq> [] then butlast (tr_tds r) else tr_tds r)
      in \<lparr>pos = cellText (getCell tds (m_pos colMap)),
          driver = cellText (getCell tds (m_driver colMap)),
          carNo = cellText (getCell tds (m_carNo colMap)),
          className = cellText (getCell tds (m_className colMap)),
          carImg = cellImageSrc (getCell tds (m_carImg colMap)),
          racePts = cellText (getCell tds (m_racePts colMap)),
          qualiPts = cellText (getCell tds (m_qualiPts colMap)),
          flPts = cellText (getCell tds (m_flPts colMap)),
          total = cellText (getCell tds (m_total colMap)),
          nett = cellText (getCell tds (m_nett colMap)),
          diff = cellText (getCell tds (m_diff colMap))\<rparr>)"

definition parseRows :: "dx_table \<Rightarrow> col_map \<Rightarrow> bool \<Rightarrow> row list" where
  "parseRows t colMap trimLast =
     filter (\<lambda>r. \<not> (driver r = [] \<and> pos r = []))
       (map (parse_row colMap trimLast) (tbl_data_rows t))"

datatype standings_error =
    HttpError
  | TableNotFound
  | HeaderRowNotFound
  | DriverNotMapped "jstring list"

text \<open>
  The part of fetchStandingsGeneric between finding the header row and mapping the
  columns: the header captions are cut or padded to the number of cells of the first data
  row, and a trailing utility column is dropped.
\<close>

definition aligned_headers :: "dx_table \<Rightarrow> tr \<Rightarrow> jstring list \<times> bool" where
  "aligned_headers t headerRow =
     (let headers0 = extractHeaderCells headerRow;
          firstTds = (case tbl_data_rows t of [] \<Rightarrow> [] | r # _ \<Rightarrow> tr_tds r);
          dataTdCount = length firstTds
      in trimTrailingUtilityColumn (alignHeadersToData headers0 dataTdCount) firstTds)"

text \<open>
  fetchStandingsGeneric. The argument is what \<^verbatim>\<open>axios.get\<close> and \<^verbatim>\<open>cheerio.load\<close> deliver:
  \<open>None\<close> when the request throws, otherwise the selection of DevExpress main tables.
\<close>

definition fetchStandingsGeneric :: "dx_table list option \<Rightarrow> standings_error + row list" where
  "fetchStandingsGeneric page =
     (case page of
        None \<Rightarrow> Inl HttpError
      | Some dxTables \<Rightarrow>
        (case pickBestDxGridTable dxTables of
           None \<Rightarrow> Inl TableNotFound
         | Some t \<Rightarrow>
           (case findHeaderRow t of
              None \<Rightarrow> Inl HeaderRowNotFound
            | Some headerRow \<Rightarrow>
                (let (headers, trimLast) = aligned_headers t headerRow;
                     colMap = mapColumnIndexes headers
                 in if m_driver colMap < 0 then Inl (DriverNotMapped headers)
                    else Inr (parseRows t colMap trimLast)))))"

text \<open>
  A small page: a header row with the single caption Driver, a data row with one cell, a
  table with two such data rows, and a table without data rows.
\<close>

definition demo_header_row :: tr where
  "demo_header_row =
     \<lparr>tr_id = js ''g_DXHeadersRow0'', tr_header_cells = 1, tr_text = js ''Driver'',
      tr_tds = [\<lparr>td_ellipsis = js ''Driver'', td_text = js ''Driver'', td_a_text = [],
                 td_img_src = None, td_has_a_img_script = False\<rparr>]\<rparr>"

definition demo_data_row :: tr where
  "demo_data_row =
     \<lparr>tr_id = [], tr_header_cells = 0, tr_text = js ''Ann'',
      tr_tds = [\<lparr>td_ellipsis = [], td_text = js ''Ann'', td_a_text = [],
                 td_img_src = None, td_has_a_img_script = False\<rparr>]\<rparr>"

definition demo_table :: dx_table where
  "demo_table = \<lparr>tbl_trs = [demo_header_row, demo_data_row, demo_data_row],
                  tbl_data_rows = [demo_data_row, demo_data_row]\<rparr>"

definition demo_empty_table :: dx_table where
  "demo_empty_table = \<lparr>tbl_trs = [demo_header_row], tbl_data_rows = []\<rparr>"

section \<open>SimGrid standings (standings.js, fetchSimgridStandings)\<close>

definition is_ri :: "nat \<Rightarrow> bool" where
  "is_ri c \<longleftrightarrow> 127462 \<le> c \<and> c \<le> 127487"

text \<open>\<^verbatim>\<open>n.toString(16)\<close> for a code point.\<close>

definition hex_digit :: "nat \<Rightarrow> nat" where
  "hex_digit d = (if d < 10 then 48 + d else 87 + d)"

function hex :: "nat \<Rightarrow> jstring" where
  "hex n = (if n < 16 then [hex_digit n] else hex (n div 16) @ [hex_digit (n mod 16)])"
  by pat_completeness auto
termination
  by (relation "measure id") auto

declare hex.simps [simp del]

fun join_with :: "jstring \<Rightarrow> jstring list \<Rightarrow> jstring" where
  "join_with sep [] = []"
| "join_with sep [x] = x"
| "join_with sep (x # y # ys) = x @ sep @ join_with sep (y # ys)"

text \<open>
  flagEmojiToTwemojiPng. \<^verbatim>\<open>Array.from\<close> splits the string into its code points, which are
  the list elements here.
\<close>

definition flagEmojiToTwemojiPng :: "jstring \<Rightarrow> jstring" where
  "flagEmojiToTwemojiPng flagEmoji =
     (if flagEmoji = [] then []
      else js ''https://cdnjs.cloudflare.com/ajax/libs/twemoji/14.0.2/72x72/''
           @ to_lower (join_with (js ''-'') (map hex flagEmoji)) @ js ''.png'')"

text \<open>
  The match of \<^verbatim>\<open>/^([\p{Regional_Indicator}]{2})\s+/u\<close>: the captured flag and the number
  of code points of the whole match, white space included. The source slices by UTF-16
  code units; dropping the matched code points removes the same text.
\<close>

definition flag_match :: "jstring \<Rightarrow> (jstring \<times> nat) option" where
  "flag_match raw =
     (case raw of
        f1 # f2 # rest \<Rightarrow>
          if is_ri f1 \<and> is_ri f2 \<and> takeWhile is_space rest \<noteq> []
          then Some ([f1, f2], 2 + length (takeWhile is_space rest))
          else None
      | _ \<Rightarrow> None)"

text \<open>One or more groups of a comma and three digits, up to the end: \<^verbatim>\<open>(?:,\d{3})+$\<close>.\<close>

fun comma_groups :: "jstring \<Rightarrow> bool" where
  "comma_groups (c # d1 # d2 # d3 # g) =
     (c = 44 \<and> is_digit d1 \<and> is_digit d2 \<and> is_digit d3 \<and> (g = [] \<or> comma_groups g))"
| "comma_groups _ = False"

text \<open>
  Whether the text after a white-space character matches \<^verbatim>\<open>(\d{1,3}(?:,\d{3})+)\s*$\<close>, and
  the capture if it does.
\<close>

definition rating_tail :: "jstring \<Rightarrow> jstring option" where
  "rating_tail t =
     (let body = rev (dropWhile is_space (rev t));
          lead = takeWhile is_digit body;
          groups = dropWhile is_digit body
      in if lead \<noteq> [] \<and> length lead \<le> 3 \<and> comma_groups groups then Some body else None)"

text \<open>
  The leftmost match of \<^verbatim>\<open>/\s(\d{1,3}(?:,\d{3})+)\s*$/\<close>: the text before the match and the
  capture.
\<close>

fun split_rating :: "jstring \<Rightarrow> (jstring \<times> jstring) option" where
  "split_rating [] = None"
| "split_rating (c # cs) =
     (case (if is_space c then rating_tail cs else None) of
        Some r \<Rightarrow> Some ([], r)
      | None \<Rightarrow> (case split_rating cs of None \<Rightarrow> None | Some (p, r) \<Rightarrow> Some (c # p, r)))"

text \<open>
  The lines of the row callback that turn the cleaned text of the entrant link into the
  flag, the driver name and the rating.
\<close>

definition parse_driver :: "jstring \<Rightarrow> jstring \<times> jstring \<times> jstring" where
  "parse_driver driverTextRaw =
     (let flagMatch = flag_match driverTextRaw;
          flagEmoji = (case flagMatch of None \<Rightarrow> [] | Some (f, n) \<Rightarrow> f);
          driverText = (case flagMatch of None \<Rightarrow> driverTextRaw
                        | Some (f, n) \<Rightarrow> js_trim (drop n driverTextRaw))
      in case split_rating driverText of
           None \<Rightarrow> (flagEmoji, driverText, [])
         | Some (before, r) \<Rightarrow> (flagEmoji, js_trim before, r))"

definition simgridMakeKeyFromText :: "jstring \<Rightarrow> jstring" where
  "simgridMakeKeyFromText t =
     (let s = to_lower (cleanText t); has = (\<lambda>k. str_includes s (js k))
      in if s = [] then []
         else if has ''mclaren'' then js ''mclaren''
         else if has ''toyota'' \<or> has ''gazoo'' then js ''toyota_gazoo''
         else if has ''ferrari'' then js ''ferrari''
         else if has ''porsche'' then js ''porsche''
         else if has ''bmw'' then js ''bmw''
         else if has ''mercedes'' \<or> has ''amg'' then js ''mercedes''
         else if has ''cadillac'' then js ''cadillac''
         else if has ''peugeot'' then js ''peugeot''
         else if has ''alpine'' then js ''alpine''
         else if has ''lamborghini'' then js ''lamborghini''
         else if has ''aston'' then js ''astonmartin''
         else if has ''lexus'' then js ''lexus''
         else if has ''honda'' \<or> has ''acura'' then js ''honda''
         else if has ''chevrolet'' \<or> has ''corvette'' then js ''corvette''
         else [])"

definition simgridMakeKeyFromSrc :: "jstring \<Rightarrow> jstring" where
  "simgridMakeKeyFromSrc src =
     (let u = to_lower src; has = (\<lambda>k. str_includes u (js k))
      in if u = [] then []
         else if has ''mclaren'' then js ''mclaren''
         else if has ''toyota'' then js ''toyota_gazoo''
         else if has ''gazoo'' then js ''toyota_gazoo''
         else if has ''ferrari'' then js ''ferrari''
         else if has ''porsche'' then js ''porsche''
         else if has ''bmw'' then js ''bmw''
         else if has ''mercedes'' \<or> has ''amg'' then js ''mercedes''
         else if has ''cadillac'' then js ''cadillac''
         else if has ''peugeot'' then js ''peugeot''
         else if has ''alpine'' then js ''alpine''
         else if has ''lamborghini'' then js ''lamborghini''
         else if has ''aston'' then js ''astonmartin''
         else if has ''lexus'' then js ''lexus''
         else if has ''honda'' \<or> has ''acura'' then js ''honda''
         else if has ''chevrolet'' \<or> has ''corvette'' then js ''corvette''
         else [])"

text \<open>
  A row of the results table through the queries of the callback; an absent attribute or
  an empty selection gives the empty string.
\<close>

record sg_tr =
  sg_pos_strong :: jstring
  sg_first_td :: jstring
  sg_entrant_name :: jstring
  sg_car_number :: jstring
  sg_img_src :: jstring
  sg_img_alt :: jstring
  sg_img_title :: jstring
  sg_img_tooltip :: jstring
  sg_cell_title :: jstring
  sg_cell_text :: jstring
  sg_points :: jstring

record simgrid_row = row +
  rating :: jstring
  carMakeKey :: jstring
  countryImg :: jstring

text \<open>The row callback: \<open>None\<close> when the row is skipped, otherwise the row pushed.\<close>

definition simgrid_row_of :: "sg_tr \<Rightarrow> simgrid_row option" where
  "simgrid_row_of r =
     (let p = or_else (cleanText (sg_pos_strong r)) (cleanText (sg_first_td r));
          driverTextRaw = cleanText (sg_entrant_name r);
          (flagEmoji, drv, rtg) = parse_driver driverTextRaw;
          cImg = (if flagEmoji \<noteq> [] then flagEmojiToTwemojiPng flagEmoji else []);
          cNo = cleanText (sg_car_number r);
          img = (if sg_img_src r \<noteq> [] \<and> prefix (js ''/'') (sg_img_src r)
                 then js ''https://www.thesimgrid.com'' @ sg_img_src r else sg_img_src r);
          hint = or_else (cleanText (sg_img_alt r))
                   (or_else (cleanText (sg_img_title r))
                      (or_else (cleanText (sg_img_tooltip r))
                         (or_else (cleanText (sg_cell_title r)) (cleanText (sg_cell_text r)))));
          mk = or_else (simgridMakeKeyFromText hint) (simgridMakeKeyFromSrc img);
          pts = or_else (cleanText (sg_points r)) (js ''0'')
      in if drv = [] then None
         else Some \<lparr>pos = p, driver = drv, carNo = cNo, className = [], carImg = img,
                    racePts = [], qualiPts = [], flPts = [], total = pts, nett = pts, diff = [],
                    rating = rtg, carMakeKey = mk, countryImg = cImg\<rparr>)"

datatype simgrid_error = SimgridFetchError | SimgridTableNotFound

text \<open>
  fetchSimgridStandings: the page is \<open>None\<close> when fetchHtml throws, \<open>Some None\<close> when there is
  no results table, and otherwise the rows of its body.
\<close>

definition fetchSimgridStandings :: "sg_tr list option option \<Rightarrow> simgrid_error + simgrid_row list" where
  "fetchSimgridStandings page =
     (case page of
        None \<Rightarrow> Inl SimgridFetchError
      | Some None \<Rightarrow> Inl SimgridTableNotFound
      | Some (Some trs) \<Rightarrow> Inr (List.map_filter simgrid_row_of trs))"

text \<open>A results row that has only a position and the text of the entrant link.\<close>

definition demo_entrant :: "jstring \<Rightarrow> sg_tr" where
  "demo_entrant name =
     \<lparr>sg_pos_strong = js ''1'', sg_first_td = [], sg_entrant_name = name, sg_car_number = [],
      sg_img_src = [], sg_img_alt = [], sg_img_title = [], sg_img_tooltip = [],
      sg_cell_title = [], sg_cell_text = [], sg_points = []\<rparr>"

section \<open>Theorems\<close>

lemma panelHeightForRows_affine:
  "panelHeightForRows (Some rows) = max 420 (154 + 26 * int (length rows))"
  by (simp add: panelHeightForRows_def rows_or_empty_def Let_def
      OUTER_PAD_def HEADER_H_def HEAD_ROW_H_def ROW_H_def)

lemma panelHeightForRows_mono:
  "length a \<le> length b \<Longrightarrow> panelHeightForRows (Some a) \<le> panelHeightForRows (Some b)"
  by (simp add: panelHeightForRows_affine)

lemma tripleCanvasH_Max:
  "tripleCanvasH a b c = Max {panelHeightForRows a, panelHeightForRows b, panelHeightForRows c}"
  by (simp add: tripleCanvasH_def max.commute max.left_commute)

lemma tripleCanvasH_mono:
  assumes "panelHeightForRows a \<le> panelHeightForRows a'"
    and "panelHeightForRows b \<le> panelHeightForRows b'"
    and "panelHeightForRows c \<le> panelHeightForRows c'"
  shows "tripleCanvasH a b c \<le> tripleCanvasH a' b' c'"
  unfolding tripleCanvasH_def by (intro max.mono assms)

text \<open>
  Claim C7. For a row list of length n the panel height is max(420, 154 + 26 n), which is
  the sum OUTER_PAD*2 + HEADER_H + 8 + HEAD_ROW_H + ROW_H*n + 18 bounded below by 420; the
  canvas height of the triple render is the maximum of the three panel heights; and the
  canvas height does not decrease when any one panel gets more rows.
\<close>

theorem C7_panel_height:
  fixes rows c y r c' y' r' :: "'r list"
  shows "panelHeightForRows (Some rows) = max 420 (154 + 26 * int (length rows))
   \<and> panelHeightForRows (Some rows)
       = max 420 (OUTER_PAD * 2 + HEADER_H + 8 + HEAD_ROW_H + ROW_H * int (length rows) + 18)
   \<and> ROW_H = 26
   \<and> tripleCanvasH (Some c) (Some y) (Some r)
       = Max {panelHeightForRows (Some c), panelHeightForRows (Some y), panelHeightForRows (Some r)}
   \<and> (length c \<le> length c' \<longrightarrow>
        tripleCanvasH (Some c) (Some y) (Some r) \<le> tripleCanvasH (Some c') (Some y) (Some r))
   \<and> (length y \<le> length y' \<longrightarrow>
        tripleCanvasH (Some c) (Some y) (Some r) \<le> tripleCanvasH (Some c) (Some y') (Some r))
   \<and> (length r \<le> length r' \<longrightarrow>
        tripleCanvasH (Some c) (Some y) (Some r) \<le> tripleCanvasH (Some c) (Some y) (Some r'))"
proof (intro conjI impI)
  show "panelHeightForRows (Some rows) = max 420 (154 + 26 * int (length rows))"
    by (rule panelHeightForRows_affine)
  show "panelHeightForRows (Some rows)
       = max 420 (OUTER_PAD * 2 + HEADER_H + 8 + HEAD_ROW_H + ROW_H * int (length rows) + 18)"
    by (simp add: panelHeightForRows_def rows_or_empty_def Let_def)
  show "ROW_H = 26" by (simp add: ROW_H_def)
  show "tripleCanvasH (Some c) (Some y) (Some r)
       = Max {panelHeightForRows (Some c), panelHeightForRows (Some y), panelHeightForRows (Some r)}"
    by (rule tripleCanvasH_Max)
  show "tripleCanvasH (Some c) (Some y) (Some r) \<le> tripleCanvasH (Some c') (Some y) (Some r)"
    if "length c \<le> length c'"
    by (rule tripleCanvasH_mono) (simp_all add: panelHeightForRows_mono that)
  show "tripleCanvasH (Some c) (Some y) (Some r) \<le> tripleCanvasH (Some c) (Some y') (Some r)"
    if "length y \<le> length y'"
    by (rule tripleCanvasH_mono) (simp_all add: panelHeightForRows_mono that)
  show "tripleCanvasH (Some c) (Some y) (Some r) \<le> tripleCanvasH (Some c) (Some y) (Some r')"
    if "length r \<le> length r'"
    by (rule tripleCanvasH_mono) (simp_all add: panelHeightForRows_mono that)
qed

theorem C7_panel_height_witness:
  "length [1::nat] \<le> length [1, 2::nat]
   \<and> panelHeightForRows (Some (replicate 20 (0::nat))) = 674
   \<and> tripleCanvasH (Some [1::nat]) (Some (replicate 20 (0::nat))) (Some [])
      \<le> tripleCanvasH (Some [1, 2::nat]) (Some (replicate 20 (0::nat))) (Some [])"
proof -
  have h: "length [1::nat] \<le> length [1, 2::nat]" by simp
  have v: "max 420 (154 + 26 * int (length (replicate 20 (0::nat)))) = 674" by simp
  from C7_panel_height[of "replicate 20 (0::nat)" "[1::nat]" "replicate 20 (0::nat)" "[]"
      "[1, 2::nat]" "replicate 20 (0::nat)" "[]"]
  have "panelHeightForRows (Some (replicate 20 (0::nat))) = 674"
    and "length [1::nat] \<le> length [1, 2::nat] \<longrightarrow>
      tripleCanvasH (Some [1::nat]) (Some (replicate 20 (0::nat))) (Some [])
      \<le> tripleCanvasH (Some [1, 2::nat]) (Some (replicate 20 (0::nat))) (Some [])"
    unfolding v by blast+
  with h show ?thesis by blast
qed

lemma ceil_seconds_pos: "0 < ms \<Longrightarrow> 0 < ceil_seconds ms"
  by (simp add: ceil_seconds_def)

text \<open>
  Claim C5. With \<open>last\<close> the recorded time of the key (0 when there is none):
  when at least BUTTON_COOLDOWN_MS = 300000 ms have elapsed since \<open>last\<close> the call returns 0
  and records \<open>now\<close>; a button never pressed counts as pressed at time 0, so with a clock
  reading \<^verbatim>\<open>Date.now()\<close> of at least 300000 ms after the epoch it is accepted; otherwise the
  call returns the ceiling in seconds of the remaining cooldown, which is positive, and
  leaves the map unchanged; and on a positive return value the button handler replies with
  the wait message, keeps the map and calls neither rendering handler.
\<close>

theorem C5_button_cooldown:
  fixes buttonCooldowns :: "string \<rightharpoonup> int" and userId buttonId :: string
    and now :: int and d r :: bool
  defines "key \<equiv> cooldown_key userId buttonId"
  defines "lastT \<equiv> (case buttonCooldowns key of None \<Rightarrow> 0 | Some t \<Rightarrow> t)"
  defines "res \<equiv> getButtonCooldownSeconds buttonCooldowns now userId buttonId"
  shows "BUTTON_COOLDOWN_MS = 300000
    \<and> (BUTTON_COOLDOWN_MS \<le> now - lastT \<longrightarrow> res = (0, buttonCooldowns(key \<mapsto> now)))
    \<and> (buttonCooldowns key = None \<and> BUTTON_COOLDOWN_MS \<le> now \<longrightarrow>
          res = (0, buttonCooldowns(key \<mapsto> now)))
    \<and> (now - lastT < BUTTON_COOLDOWN_MS \<longrightarrow>
          fst res = \<lceil>(of_int (BUTTON_COOLDOWN_MS - (now - lastT)) :: rat) / 1000\<rceil>
          \<and> 0 < fst res \<and> snd res = buttonCooldowns)
    \<and> (0 < fst res \<longrightarrow>
          onButtonInteraction buttonCooldowns now
              \<lparr>user_id = userId, customId = buttonId, deferred = d, replied = r\<rparr>
            = (safeAck \<lparr>user_id = userId, customId = buttonId, deferred = d, replied = r\<rparr>
                 @ [EditReplyWait (fst res), AutoDeleteEphemeral 5000], buttonCooldowns)
          \<and> \<not> list_ex is_render (fst (onButtonInteraction buttonCooldowns now
              \<lparr>user_id = userId, customId = buttonId, deferred = d, replied = r\<rparr>)))"
proof (intro conjI impI)
  show "BUTTON_COOLDOWN_MS = 300000" by (simp add: BUTTON_COOLDOWN_MS_def)
  show "res = (0, buttonCooldowns(key \<mapsto> now))" if "BUTTON_COOLDOWN_MS \<le> now - lastT"
    using that unfolding res_def lastT_def key_def getButtonCooldownSeconds_def Let_def by simp
  show "res = (0, buttonCooldowns(key \<mapsto> now))"
    if "buttonCooldowns key = None \<and> BUTTON_COOLDOWN_MS \<le> now"
    using that unfolding res_def key_def getButtonCooldownSeconds_def Let_def by simp
  have blocked: "res = (ceil_seconds (BUTTON_COOLDOWN_MS - (now - lastT)), buttonCooldowns)"
    if "now - lastT < BUTTON_COOLDOWN_MS"
    using that unfolding res_def lastT_def key_def getButtonCooldownSeconds_def Let_def by simp
  show "fst res = \<lceil>(of_int (BUTTON_COOLDOWN_MS - (now - lastT)) :: rat) / 1000\<rceil>"
    if "now - lastT < BUTTON_COOLDOWN_MS"
    using blocked[OF that] by (simp add: ceil_seconds_def)
  show "0 < fst res" if "now - lastT < BUTTON_COOLDOWN_MS"
    using blocked[OF that] that by (simp add: ceil_seconds_pos)
  show "snd res = buttonCooldowns" if "now - lastT < BUTTON_COOLDOWN_MS"
    using blocked[OF that] by simp
  have unchanged: "snd res = buttonCooldowns" if "0 < fst res"
    using that unfolding res_def getButtonCooldownSeconds_def Let_def
    by (simp split: if_splits)
  let ?i = "\<lparr>user_id = userId, customId = buttonId, deferred = d, replied = r\<rparr>"
  show eq: "onButtonInteraction buttonCooldowns now ?i
      = (safeAck ?i @ [EditReplyWait (fst res), AutoDeleteEphemeral 5000], buttonCooldowns)"
    if "0 < fst res"
    using that unchanged[OF that] unfolding onButtonInteraction_def Let_def res_def
    by (simp add: case_prod_beta)
  show "\<not> list_ex is_render (fst (onButtonInteraction buttonCooldowns now ?i))" if "0 < fst res"
    unfolding eq[OF that] by (simp add: safeAck_def)
qed

theorem C5_button_cooldown_witness:
  "BUTTON_COOLDOWN_MS \<le> 1700000000000 - 0
   \<and> getButtonCooldownSeconds Map.empty 1700000000000 ''7'' ''oor_class_red''
       = (0, [cooldown_key ''7'' ''oor_class_red'' \<mapsto> 1700000000000])
   \<and> 1700000060000 - 1700000000000 < BUTTON_COOLDOWN_MS
   \<and> fst (getButtonCooldownSeconds [cooldown_key ''7'' ''oor_class_red'' \<mapsto> 1700000000000]
         1700000060000 ''7'' ''oor_class_red'') = 240
   \<and> snd (getButtonCooldownSeconds [cooldown_key ''7'' ''oor_class_red'' \<mapsto> 1700000000000]
         1700000060000 ''7'' ''oor_class_red'')
       = [cooldown_key ''7'' ''oor_class_red'' \<mapsto> 1700000000000]
   \<and> onButtonInteraction [cooldown_key ''7'' ''oor_class_red'' \<mapsto> 1700000000000] 1700000060000
         \<lparr>user_id = ''7'', customId = ''oor_class_red'', deferred = False, replied = False\<rparr>
       = ([DeferReply, EditReplyWait 240, AutoDeleteEphemeral 5000],
          [cooldown_key ''7'' ''oor_class_red'' \<mapsto> 1700000000000])"
proof -
  let ?m = "[cooldown_key ''7'' ''oor_class_red'' \<mapsto> (1700000000000::int)]"
  let ?i = "\<lparr>user_id = ''7'', customId = ''oor_class_red'', deferred = False, replied = False\<rparr>"
  have c: "\<lceil>(240000::rat) / 1000\<rceil> = 240" by simp
  have p1: "BUTTON_COOLDOWN_MS \<le> 1700000000000 - 0
     \<and> getButtonCooldownSeconds Map.empty 1700000000000 ''7'' ''oor_class_red''
       = (0, [cooldown_key ''7'' ''oor_class_red'' \<mapsto> 1700000000000])"
    using C5_button_cooldown[where buttonCooldowns=Map.empty and userId="''7''"
        and buttonId="''oor_class_red''" and now=1700000000000 and d=False and r=False]
    by (simp add: BUTTON_COOLDOWN_MS_def)
  have p2: "1700000060000 - 1700000000000 < BUTTON_COOLDOWN_MS"
    by (simp add: BUTTON_COOLDOWN_MS_def)
  note B = C5_button_cooldown[where buttonCooldowns="?m"
        and userId="''7''" and buttonId="''oor_class_red''" and now=1700000060000
        and d=False and r=False]
  have p3: "fst (getButtonCooldownSeconds ?m 1700000060000 ''7'' ''oor_class_red'') = 240"
    using B by (simp add: BUTTON_COOLDOWN_MS_def)
  have p4: "snd (getButtonCooldownSeconds ?m 1700000060000 ''7'' ''oor_class_red'') = ?m"
    using B by (simp add: BUTTON_COOLDOWN_MS_def)
  have "onButtonInteraction ?m 1700000060000 ?i
       = (safeAck ?i @ [EditReplyWait 240, AutoDeleteEphemeral 5000], ?m)"
    using B unfolding p3 by simp
  then have p5: "onButtonInteraction ?m 1700000060000 ?i
       = ([DeferReply, EditReplyWait 240, AutoDeleteEphemeral 5000], ?m)"
    by (simp add: safeAck_def)
  from p1 p2 p3 p4 p5 show ?thesis by blast
qed

lemma handleRefreshCommand_rejected:
  assumes "now - lastRefreshAt st < REFRESH_COOLDOWN_MS \<or> refreshLock st"
  shows "fst (handleRefreshCommand st now env) = st"
    and "\<not> list_ex is_refresh_work (fst (snd (handleRefreshCommand st now env)))"
    and "RSetLock True \<notin> set (fst (snd (handleRefreshCommand st now env)))"
  using assms by (auto simp: handleRefreshCommand_def Let_def)

lemma handleRefreshCommand_accepted:
  assumes "defer_ok env" "\<not> now - lastRefreshAt st < REFRESH_COOLDOWN_MS" "\<not> refreshLock st"
  shows "handleRefreshCommand st now env =
     (st\<lparr>refreshLock := False, lastRefreshAt := now\<rparr>,
      [RDeferReply, RSetLock True] @ fst (refresh_try env)
        @ (if snd (refresh_try env) then fst (refresh_catch env) else []) @ [RSetLock False],
      snd (refresh_try env) \<and> snd (refresh_catch env))"
  using assms by (simp add: handleRefreshCommand_def Let_def case_prod_beta)

lemma handleRefreshCommand_lock_released:
  "\<not> refreshLock st \<Longrightarrow> \<not> refreshLock (fst (handleRefreshCommand st now env))"
  by (simp add: handleRefreshCommand_def Let_def case_prod_beta)

text \<open>
  Claim C6. A /refresh arriving less than REFRESH_COOLDOWN_MS = 30000 ms after the last
  accepted one, or while refreshLock is set, leaves the state as it is and performs no
  channel fetch, scrape, render or post; its reply is the wait message, respectively the
  busy message. An accepted refresh sets refreshLock before any of that work, clears it as
  its last step on every way out of the try block, and records \<open>now\<close> as lastRefreshAt.
  Hence a call that starts with the lock free ends with the lock free, whatever fails.
\<close>

theorem C6_refresh_lock:
  fixes st :: refresh_state and now :: int and env :: refresh_env
  defines "res \<equiv> handleRefreshCommand st now env"
  shows "REFRESH_COOLDOWN_MS = 30000
    \<and> (now - lastRefreshAt st < REFRESH_COOLDOWN_MS \<or> refreshLock st \<longrightarrow>
          fst res = st \<and> \<not> list_ex is_refresh_work (fst (snd res)))
    \<and> (defer_ok env \<and> early_reply_ok env \<and> now - lastRefreshAt st < REFRESH_COOLDOWN_MS \<longrightarrow>
          fst (snd res) = [RDeferReply,
             RWaitReply \<lceil>(of_int (REFRESH_COOLDOWN_MS - (now - lastRefreshAt st)) :: rat) / 1000\<rceil>,
             RAutoDelete 10000])
    \<and> (defer_ok env \<and> early_reply_ok env \<and> \<not> now - lastRefreshAt st < REFRESH_COOLDOWN_MS
          \<and> refreshLock st \<longrightarrow>
          fst (snd res) = [RDeferReply, RBusyReply, RAutoDelete 10000])
    \<and> (defer_ok env \<and> \<not> now - lastRefreshAt st < REFRESH_COOLDOWN_MS \<and> \<not> refreshLock st \<longrightarrow>
          (\<exists>body. fst (snd res) = [RDeferReply, RSetLock True] @ body @ [RSetLock False]
                  \<and> RSetLock True \<notin> set body \<and> RSetLock False \<notin> set body)
          \<and> \<not> refreshLock (fst res) \<and> lastRefreshAt (fst res) = now)
    \<and> (\<not> refreshLock st \<longrightarrow> \<not> refreshLock (fst res))"
proof (intro conjI impI)
  show "REFRESH_COOLDOWN_MS = 30000" by (simp add: REFRESH_COOLDOWN_MS_def)
  show "fst res = st" if "now - lastRefreshAt st < REFRESH_COOLDOWN_MS \<or> refreshLock st"
    unfolding res_def by (rule handleRefreshCommand_rejected(1)[OF that])
  show "\<not> list_ex is_refresh_work (fst (snd res))"
    if "now - lastRefreshAt st < REFRESH_COOLDOWN_MS \<or> refreshLock st"
    unfolding res_def by (rule handleRefreshCommand_rejected(2)[OF that])
  show "fst (snd res) = [RDeferReply,
             RWaitReply \<lceil>(of_int (REFRESH_COOLDOWN_MS - (now - lastRefreshAt st)) :: rat) / 1000\<rceil>,
             RAutoDelete 10000]"
    if "defer_ok env \<and> early_reply_ok env \<and> now - lastRefreshAt st < REFRESH_COOLDOWN_MS"
    using that unfolding res_def by (simp add: handleRefreshCommand_def Let_def ceil_seconds_def)
  show "fst (snd res) = [RDeferReply, RBusyReply, RAutoDelete 10000]"
    if "defer_ok env \<and> early_reply_ok env \<and> \<not> now - lastRefreshAt st < REFRESH_COOLDOWN_MS
          \<and> refreshLock st"
    using that unfolding res_def by (simp add: handleRefreshCommand_def Let_def)
  show "\<not> refreshLock (fst res)" if "\<not> refreshLock st"
    unfolding res_def by (rule handleRefreshCommand_lock_released[OF that])
  assume acc: "defer_ok env \<and> \<not> now - lastRefreshAt st < REFRESH_COOLDOWN_MS \<and> \<not> refreshLock st"
  then have eq: "res = (st\<lparr>refreshLock := False, lastRefreshAt := now\<rparr>,
      [RDeferReply, RSetLock True] @ fst (refresh_try env)
        @ (if snd (refresh_try env) then fst (refresh_catch env) else []) @ [RSetLock False],
      snd (refresh_try env) \<and> snd (refresh_catch env))"
    unfolding res_def by (intro handleRefreshCommand_accepted) simp_all
  show "\<not> refreshLock (fst res)" and "lastRefreshAt (fst res) = now"
    by (simp_all add: eq)
  let ?body = "fst (refresh_try env) @ (if snd (refresh_try env) then fst (refresh_catch env) else [])"
  have "RSetLock True \<notin> set ?body \<and> RSetLock False \<notin> set ?body"
    by (simp add: refresh_try_def refresh_catch_def)
  then show "\<exists>body. fst (snd res) = [RDeferReply, RSetLock True] @ body @ [RSetLock False]
                  \<and> RSetLock True \<notin> set body \<and> RSetLock False \<notin> set body"
    by (intro exI[of _ ?body]) (simp add: eq)
qed

theorem C6_refresh_lock_witness:
  "(1000 - lastRefreshAt \<lparr>refreshLock = False, lastRefreshAt = 0\<rparr> < REFRESH_COOLDOWN_MS
      \<or> refreshLock \<lparr>refreshLock = False, lastRefreshAt = 0\<rparr>)
   \<and> fst (handleRefreshCommand \<lparr>refreshLock = False, lastRefreshAt = 0\<rparr> 1000
        \<lparr>defer_ok = True, early_reply_ok = True, channel_ok = True, scrape_ok = True,
         render_post_ok = True, simgrid_ok = True, done_reply_ok = True, fail_reply_ok = True\<rparr>)
      = \<lparr>refreshLock = False, lastRefreshAt = 0\<rparr>
   \<and> fst (snd (handleRefreshCommand \<lparr>refreshLock = False, lastRefreshAt = 0\<rparr> 1000
        \<lparr>defer_ok = True, early_reply_ok = True, channel_ok = True, scrape_ok = True,
         render_post_ok = True, simgrid_ok = True, done_reply_ok = True, fail_reply_ok = True\<rparr>))
      = [RDeferReply, RWaitReply 29, RAutoDelete 10000]
   \<and> \<not> refreshLock (fst (handleRefreshCommand \<lparr>refreshLock = False, lastRefreshAt = 0\<rparr> 90000
        \<lparr>defer_ok = True, early_reply_ok = True, channel_ok = True, scrape_ok = False,
         render_post_ok = True, simgrid_ok = True, done_reply_ok = True, fail_reply_ok = False\<rparr>))
   \<and> lastRefreshAt (fst (handleRefreshCommand \<lparr>refreshLock = False, lastRefreshAt = 0\<rparr> 90000
        \<lparr>defer_ok = True, early_reply_ok = True, channel_ok = True, scrape_ok = False,
         render_post_ok = True, simgrid_ok = True, done_reply_ok = True, fail_reply_ok = False\<rparr>))
      = 90000"
proof -
  let ?st = "\<lparr>refreshLock = False, lastRefreshAt = 0\<rparr>"
  let ?ok = "\<lparr>defer_ok = True, early_reply_ok = True, channel_ok = True, scrape_ok = True,
         render_post_ok = True, simgrid_ok = True, done_reply_ok = True, fail_reply_ok = True\<rparr>"
  let ?bad = "\<lparr>defer_ok = True, early_reply_ok = True, channel_ok = True, scrape_ok = False,
         render_post_ok = True, simgrid_ok = True, done_reply_ok = True, fail_reply_ok = False\<rparr>"
  have c: "\<lceil>(29000::rat) / 1000\<rceil> = 29" by simp
  note A = C6_refresh_lock[where now=1000 and st="?st" and env="?ok"]
  note B = C6_refresh_lock[where now=90000 and st="?st" and env="?bad"]
  have h1: "1000 - lastRefreshAt ?st < REFRESH_COOLDOWN_MS \<or> refreshLock ?st"
    by (simp add: REFRESH_COOLDOWN_MS_def)
  have p1: "fst (handleRefreshCommand ?st 1000 ?ok) = ?st"
    using A h1 by blast
  have h2: "defer_ok ?ok \<and> early_reply_ok ?ok \<and> 1000 - lastRefreshAt ?st < REFRESH_COOLDOWN_MS"
    by (simp add: REFRESH_COOLDOWN_MS_def)
  have "fst (snd (handleRefreshCommand ?st 1000 ?ok)) = [RDeferReply,
      RWaitReply \<lceil>(of_int (REFRESH_COOLDOWN_MS - (1000 - lastRefreshAt ?st)) :: rat) / 1000\<rceil>,
      RAutoDelete 10000]"
    using A h2 by blast
  then have p2: "fst (snd (handleRefreshCommand ?st 1000 ?ok))
      = [RDeferReply, RWaitReply 29, RAutoDelete 10000]"
    by (simp add: REFRESH_COOLDOWN_MS_def c)
  have h3: "defer_ok ?bad \<and> \<not> 90000 - lastRefreshAt ?st < REFRESH_COOLDOWN_MS \<and> \<not> refreshLock ?st"
    by (simp add: REFRESH_COOLDOWN_MS_def)
  have p3: "\<not> refreshLock (fst (handleRefreshCommand ?st 90000 ?bad))"
    and p4: "lastRefreshAt (fst (handleRefreshCommand ?st 90000 ?bad)) = 90000"
    using B h3 by blast+
  from h1 p1 p2 p3 p4 show ?thesis by blast
qed

lemma includes_sublist: "str_includes s k \<longleftrightarrow> sublist k s"
  by (induction s) (auto simp: sublist_Cons_right)

declare fetch_loop.simps [simp del]

lemma fetch_loop_all_fail:
  assumes "\<forall>j. i \<le> j \<and> j < attempts \<longrightarrow> isl (attempt (net j))"
  shows "fetch_loop net attempts i lastErr sleeps =
     (Inl (if i < attempts then projl (attempt (net (attempts - 1)))
           else (case lastErr of Some e \<Rightarrow> e | None \<Rightarrow> FetchFailed)),
      sleeps @ map (\<lambda>k. 700 + int k * 500) [i..<attempts - 1])"
  using assms
proof (induction net attempts i lastErr sleeps rule: fetch_loop.induct)
  case (1 net attempts i lastErr sleeps)
  show ?case
  proof (cases "i < attempts")
    case False
    then show ?thesis by (simp add: fetch_loop.simps[of net attempts i])
  next
    case True
    with "1.prems" obtain e where e: "attempt (net i) = Inl e"
      by (metis order.refl sum.collapse(1))
    have rest: "\<forall>j. i + 1 \<le> j \<and> j < attempts \<longrightarrow> isl (attempt (net j))"
      using "1.prems" by auto
    note IH = "1.IH"[OF True e rest]
    have step: "fetch_loop net attempts i lastErr sleeps =
        fetch_loop net attempts (i + 1) (Some e)
          (if int i < int attempts - 1 then sleeps @ [700 + int i * 500] else sleeps)"
      using True e by (subst fetch_loop.simps) simp
    show ?thesis
    proof (cases "i + 1 < attempts")
      case True
      then have "[i..<attempts - 1] = i # [i + 1..<attempts - 1]"
        by (simp add: upt_conv_Cons)
      with True \<open>i < attempts\<close> show ?thesis
        unfolding step IH by simp
    next
      case False
      with \<open>i < attempts\<close> have "attempts - 1 = i" by simp
      with False \<open>i < attempts\<close> e show ?thesis
        unfolding step IH by simp
    qed
  qed
qed

lemma fetch_loop_success:
  assumes "fetch_loop net attempts i lastErr sleeps = (Inr body, sl)"
  shows "\<exists>k. i \<le> k \<and> k < attempts \<and> attempt (net k) = Inr body
            \<and> (\<forall>j. i \<le> j \<and> j < k \<longrightarrow> isl (attempt (net j)))
            \<and> sl = sleeps @ map (\<lambda>k. 700 + int k * 500) [i..<k]"
  using assms
proof (induction net attempts i lastErr sleeps rule: fetch_loop.induct)
  case (1 net attempts i lastErr sleeps)
  show ?case
  proof (cases "i < attempts")
    case False
    with "1.prems" show ?thesis by (simp add: fetch_loop.simps[of net attempts i])
  next
    case True
    show ?thesis
    proof (cases "attempt (net i)")
      case (Inr t)
      with True "1.prems" have "t = body" "sl = sleeps"
        by (simp_all add: fetch_loop.simps[of net attempts i])
      with Inr True show ?thesis by (intro exI[of _ i]) auto
    next
      case (Inl e)
      with True "1.prems" have
        "fetch_loop net attempts (i + 1) (Some e)
           (if int i < int attempts - 1 then sleeps @ [700 + int i * 500] else sleeps) = (Inr body, sl)"
        by (simp add: fetch_loop.simps[of net attempts i])
      from "1.IH"[OF True Inl this] obtain k where k: "i + 1 \<le> k" "k < attempts"
        "attempt (net k) = Inr body" "\<forall>j. i + 1 \<le> j \<and> j < k \<longrightarrow> isl (attempt (net j))"
        "sl = (if int i < int attempts - 1 then sleeps @ [700 + int i * 500] else sleeps)
               @ map (\<lambda>k. 700 + int k * 500) [i + 1..<k]"
        by blast
      have "[i..<k] = i # [i + 1..<k]" using k(1) by (simp add: upt_conv_Cons)
      moreover have "int i < int attempts - 1" using k(1,2) by simp
      moreover have "\<forall>j. i \<le> j \<and> j < k \<longrightarrow> isl (attempt (net j))"
      proof (intro allI impI)
        fix j assume "i \<le> j \<and> j < k"
        then show "isl (attempt (net j))" using k(4) Inl by (cases "j = i") auto
      qed
      ultimately show ?thesis using k by (intro exI[of _ k]) simp
    qed
  qed
qed

lemma attempt_Inr:
  "attempt r = Inr body \<longleftrightarrow> (\<exists>status. r = Response True status (Some body)) \<and> str_includes body MARKER"
  by (cases r) (auto split: option.splits)

lemma str_includes_refl: "str_includes s s"
  by (cases s) simp_all

text \<open>
  Claim C3. With fetch available: a returned body contains the marker and is the body of
  the first attempt that answered ok with a marked body, every earlier attempt having
  failed, with one sleep of 700 + 500 i ms after each failed attempt i; an answer that is
  not ok, or whose body lacks the marker, is a failed attempt; when all attempts fail (and
  there is at least one) the call throws the error of the last attempt, having slept after
  every attempt but the last; the number of attempts is 3 when the argument is omitted.
\<close>

theorem C3_fetch_retry:
  fixes net :: "nat \<Rightarrow> response" and attempts_arg :: "nat option" and body t :: jstring
    and ok :: bool and status :: nat and b :: "jstring option"
  defines "attempts \<equiv> (case attempts_arg of None \<Rightarrow> 3 | Some n \<Rightarrow> n)"
  defines "res \<equiv> fetchHtmlWithRetry True net attempts_arg"
  shows "(fst res = Inr body \<longrightarrow>
            str_includes body MARKER
          \<and> (\<exists>k<attempts. (\<exists>st. net k = Response True st (Some body))
                \<and> (\<forall>j<k. isl (attempt (net j)))
                \<and> snd res = map (\<lambda>i. 700 + int i * 500) [0..<k]))
    \<and> (\<not> ok \<longrightarrow> isl (attempt (Response ok status b)))
    \<and> (\<not> str_includes t MARKER \<longrightarrow> isl (attempt (Response ok status (Some t))))
    \<and> (0 < attempts \<and> (\<forall>j<attempts. isl (attempt (net j))) \<longrightarrow>
          fst res = Inl (projl (attempt (net (attempts - 1))))
          \<and> snd res = map (\<lambda>i. 700 + int i * 500) [0..<attempts - 1])
    \<and> fetchHtmlWithRetry True net None = fetchHtmlWithRetry True net (Some 3)"
proof (intro conjI impI)
  have res: "res = fetch_loop net attempts 0 None []"
    by (simp add: res_def attempts_def fetchHtmlWithRetry_def)
  show "isl (attempt (Response ok status b))" if "\<not> ok"
    using that by simp
  show "isl (attempt (Response ok status (Some t)))" if "\<not> str_includes t MARKER"
    using that by simp
  show "fetchHtmlWithRetry True net None = fetchHtmlWithRetry True net (Some 3)"
    by (simp add: fetchHtmlWithRetry_def)
  {
    assume "fst res = Inr body"
    then have "fetch_loop net attempts 0 None [] = (Inr body, snd res)"
      by (simp add: res[symmetric] prod_eq_iff)
    from fetch_loop_success[OF this] obtain k where k: "k < attempts"
      "attempt (net k) = Inr body" "\<forall>j. 0 \<le> j \<and> j < k \<longrightarrow> isl (attempt (net j))"
      "snd res = map (\<lambda>k. 700 + int k * 500) [0..<k]"
      by auto
    from k(2) show "str_includes body MARKER" by (simp add: attempt_Inr)
    from k(2) have "\<exists>st. net k = Response True st (Some body)" by (simp add: attempt_Inr)
    with k show "\<exists>k<attempts. (\<exists>st. net k = Response True st (Some body))
                \<and> (\<forall>j<k. isl (attempt (net j)))
                \<and> snd res = map (\<lambda>i. 700 + int i * 500) [0..<k]"
      by (intro exI[of _ k]) simp
  }
  {
    assume a: "0 < attempts \<and> (\<forall>j<attempts. isl (attempt (net j)))"
    then have "\<forall>j. 0 \<le> j \<and> j < attempts \<longrightarrow> isl (attempt (net j))" by simp
    from fetch_loop_all_fail[OF this, of None "[]"] a
    show "fst res = Inl (projl (attempt (net (attempts - 1))))"
      and "snd res = map (\<lambda>i. 700 + int i * 500) [0..<attempts - 1]"
      by (simp_all add: res)
  }
qed

lemma busy_unmarked: "\<not> str_includes (js ''busy'') MARKER"
  by (simp add: js_def MARKER_def)

theorem C3_fetch_retry_witness:
  "fst (fetchHtmlWithRetry True
      (\<lambda>i. if i = 2 then Response True 200 (Some MARKER) else Response False 503 None) None)
     = Inr MARKER
   \<and> str_includes MARKER MARKER
   \<and> \<not> str_includes (js ''busy'') MARKER
   \<and> isl (attempt (Response True 200 (Some (js ''busy''))))
   \<and> fetchHtmlWithRetry True (\<lambda>i. Response True 200 (Some (js ''busy''))) None
     = (Inl MissingMarker, [700, 1200])"
proof -
  let ?net = "\<lambda>i::nat. if i = 2 then Response True 200 (Some MARKER) else Response False 503 None"
  let ?bad = "\<lambda>i::nat. Response True 200 (Some (js ''busy''))"
  have a: "attempt (Response True 200 (Some MARKER)) = Inr MARKER"
    by (simp add: str_includes_refl)
  have a2: "attempt (Response False 503 None) = Inl (FetchFailedStatus 503)"
    by simp
  have h1: "fst (fetchHtmlWithRetry True ?net None) = Inr MARKER"
    by (simp add: fetchHtmlWithRetry_def fetch_loop.simps a a2 del: attempt.simps)
  note A = C3_fetch_retry[where net="?net" and attempts_arg=None and body=MARKER
      and t="js ''busy''" and ok=True and status=200 and b=None]
  have p1: "str_includes MARKER MARKER" using A h1 by blast
  have p2: "isl (attempt (Response True 200 (Some (js ''busy''))))"
    using A busy_unmarked by blast
  note B = C3_fetch_retry[where net="?bad" and attempts_arg=None and body=MARKER
      and t="js ''busy''" and ok=True and status=200 and b=None]
  have h2: "0 < (case None :: nat option of None \<Rightarrow> 3 | Some n \<Rightarrow> n)
      \<and> (\<forall>j<(case None :: nat option of None \<Rightarrow> 3 | Some n \<Rightarrow> n). isl (attempt (?bad j)))"
    using busy_unmarked by simp
  have "fst (fetchHtmlWithRetry True ?bad None)
        = Inl (projl (attempt (?bad ((case None :: nat option of None \<Rightarrow> 3 | Some n \<Rightarrow> n) - 1))))
      \<and> snd (fetchHtmlWithRetry True ?bad None)
        = map (\<lambda>i. 700 + int i * 500) [0..<(case None :: nat option of None \<Rightarrow> 3 | Some n \<Rightarrow> n) - 1]"
    using B h2 by blast
  moreover have "projl (attempt (Response True 200 (Some (js ''busy'')))) = MissingMarker"
    using busy_unmarked by simp
  moreover have "map (\<lambda>i. 700 + int i * 500) [0..<(3::nat) - 1] = [700, 1200]"
    by (simp add: upt_rec)
  ultimately have "fst (fetchHtmlWithRetry True ?bad None) = Inl MissingMarker
      \<and> snd (fetchHtmlWithRetry True ?bad None) = [700, 1200]"
    by simp
  then have p3: "fetchHtmlWithRetry True ?bad None = (Inl MissingMarker, [700, 1200])"
    by (simp add: prod_eq_iff)
  from h1 p1 p2 p3 busy_unmarked show ?thesis by blast
qed

lemma series_rows_single:
  "int (length rs) \<le> maxRowsPerCol opt \<Longrightarrow>
   map dc_rows (drawn (renderSeriesOnlyPng (Some (p\<lparr>p_rows := Some rs\<rparr>)) opt)) = [rs]"
  by (simp add: renderSeriesOnlyPng_def Let_def)

lemma series_rows_double:
  "maxRowsPerCol opt < int (length rs) \<Longrightarrow>
   map dc_rows (drawn (renderSeriesOnlyPng (Some (p\<lparr>p_rows := Some rs\<rparr>)) opt))
     = [take (nat (maxRowsPerCol opt)) rs,
        take (nat (maxRowsPerCol opt)) (drop (nat (maxRowsPerCol opt)) rs)]"
  by (simp add: renderSeriesOnlyPng_def Let_def)

lemma take_take_drop: "take m rs @ take m (drop m rs) = take (2 * m) rs"
  by (simp add: take_add mult_2)

lemma series_rows_concat:
  "concat (map dc_rows (drawn (renderSeriesOnlyPng (Some (p\<lparr>p_rows := Some rs\<rparr>)) opt)))
     = take (2 * nat (maxRowsPerCol opt)) rs"
proof (cases "int (length rs) \<le> maxRowsPerCol opt")
  case True
  then show ?thesis by (simp add: series_rows_single)
next
  case False
  then show ?thesis by (simp add: series_rows_double take_take_drop)
qed

lemma take_drop_nth: "take m (drop m rs) = map (\<lambda>i. rs ! i) [m..<min (length rs) (2 * m)]"
proof (rule nth_equalityI)
  show "length (take m (drop m rs)) = length (map (\<lambda>i. rs ! i) [m..<min (length rs) (2 * m)])"
    by auto
next
  fix i assume "i < length (take m (drop m rs))"
  then have i: "i < m" "m + i < length rs" by auto
  then have b: "m + i < min (length rs) (2 * m)" by simp
  then have l: "i < length [m..<min (length rs) (2 * m)]" by (simp add: min_def split: if_splits)
  have "map (\<lambda>i. rs ! i) [m..<min (length rs) (2 * m)] ! i
      = rs ! ([m..<min (length rs) (2 * m)] ! i)"
    using l by (rule nth_map)
  also have "[m..<min (length rs) (2 * m)] ! i = m + i"
    using b by (rule nth_upt)
  finally have "map (\<lambda>i. rs ! i) [m..<min (length rs) (2 * m)] ! i = rs ! (m + i)" .
  with i show "take m (drop m rs) ! i = map (\<lambda>i. rs ! i) [m..<min (length rs) (2 * m)] ! i"
    by simp
qed

text \<open>
  Claim C8. With the default limit of 30 rows per column a panel of at most 30 rows is
  drawn as one panel holding all of them, and a longer one as two panels holding rows
  1..30 and rows 31..min(n, 60); in both cases the rows drawn are, in order, the first 60
  of the panel, so a row past position 60 is in no drawPanel call. A supplied
  maxRowsPerCol is floored and raised to at least 5.
\<close>

theorem C8_series_truncation:
  fixes p :: "'r panel" and rs :: "'r list" and v :: rat
  defines "calls \<equiv> drawn (renderSeriesOnlyPng (Some (p\<lparr>p_rows := Some rs\<rparr>)) None)"
  shows "maxRowsPerCol None = 30
    \<and> (length rs \<le> 30 \<longrightarrow> map dc_rows calls = [rs])
    \<and> (30 < length rs \<longrightarrow>
          map dc_rows calls = [take 30 rs, map (\<lambda>i. rs ! i) [30..<min (length rs) 60]])
    \<and> concat (map dc_rows calls) = take 60 rs
    \<and> maxRowsPerCol (Some v) = max 5 \<lfloor>v\<rfloor>
    \<and> 5 \<le> maxRowsPerCol (Some v)"
proof -
  have m: "maxRowsPerCol None = 30"
    by (simp add: maxRowsPerCol_def MAX_ROWS_PER_COL_def)
  have a: "map dc_rows calls = [rs]" if "length rs \<le> 30"
    unfolding calls_def using that by (intro series_rows_single) (simp add: m)
  have "map dc_rows calls = [take (nat 30) rs, take (nat 30) (drop (nat 30) rs)]"
    if "30 < length rs"
    unfolding calls_def using that series_rows_double[where opt=None and rs=rs and p=p] by (simp add: m)
  then have b: "map dc_rows calls = [take 30 rs, map (\<lambda>i. rs ! i) [30..<min (length rs) 60]]"
    if "30 < length rs"
    using that take_drop_nth[of 30 rs] by simp
  have c: "concat (map dc_rows calls) = take 60 rs"
    unfolding calls_def using series_rows_concat[where opt=None and rs=rs and p=p] by (simp add: m)
  have d: "maxRowsPerCol (Some v) = max 5 \<lfloor>v\<rfloor>"
    by (simp add: maxRowsPerCol_def)
  from m a b c d show ?thesis by simp
qed

theorem C8_series_truncation_witness:
  "30 < length [0..<62]
   \<and> map dc_rows (drawn (renderSeriesOnlyPng
        (Some (default_panel\<lparr>p_rows := Some [0..<62]\<rparr>)) None)) = [[0..<30], [30..<60]]
   \<and> length [7, 8 :: nat] \<le> 30
   \<and> map dc_rows (drawn (renderSeriesOnlyPng
        (Some (default_panel\<lparr>p_rows := Some [7, 8 :: nat]\<rparr>)) None)) = [[7, 8]]
   \<and> maxRowsPerCol (Some (7 / 2)) = 5"
proof -
  note A = C8_series_truncation[where p=default_panel and rs="[0..<62]" and v="7 / 2"]
  note B = C8_series_truncation[where p=default_panel and rs="[7, 8 :: nat]" and v="7 / 2"]
  have h: "30 < length [0..<62]" by simp
  have "map dc_rows (drawn (renderSeriesOnlyPng
      (Some (default_panel\<lparr>p_rows := Some [0..<62]\<rparr>)) None))
      = [take 30 [0..<62], map (\<lambda>i. [0..<62] ! i) [30..<min (length [0..<62]) 60]]"
    using A h by blast
  moreover have "take 30 [0..<62] = [0..<30]" by simp
  moreover have "map (\<lambda>i. [0..<62] ! i) [30..<min (length [0..<62]) 60] = [30..<60]"
    by (rule nth_equalityI) simp_all
  ultimately have p1: "map dc_rows (drawn (renderSeriesOnlyPng
      (Some (default_panel\<lparr>p_rows := Some [0..<62]\<rparr>)) None)) = [[0..<30], [30..<60]]"
    by simp
  have h2: "length [7, 8 :: nat] \<le> 30" by simp
  have p2: "map dc_rows (drawn (renderSeriesOnlyPng
        (Some (default_panel\<lparr>p_rows := Some [7, 8 :: nat]\<rparr>)) None)) = [[7, 8]]"
    using B h2 by blast
  have "\<lfloor>7 / 2 :: rat\<rfloor> = 3" by (simp add: floor_eq_iff)
  with A have p3: "maxRowsPerCol (Some (7 / 2)) = 5" by simp
  from h p1 h2 p2 p3 show ?thesis by blast
qed

lemma render_and_post_renders:
  "Render \<in> set (fst (snd (simgrid_render_and_post cfg env dataHash c)))"
  by (simp add: simgrid_render_and_post_def Let_def split: option.splits)

lemma checkAndPostSimgrid_reached:
  assumes "js_trim (simgridHypercarUrl cfg) \<noteq> []" "js_trim (simgridLmgt3Url cfg) \<noteq> []"
    and "hyper_scrape env = Some h" "lmgt3_scrape env = Some l"
    and "filter url_like h = []" "filter url_like l = []"
  shows "checkAndPostSimgrid digest url_like cfg env force now =
     (let unchanged = (simgridLastHash cfg \<noteq> [] \<and> simgridLastHash cfg = digest h l);
          mid = simgridMessageId cfg;
          c = \<lparr>shown_updated = (if unchanged
                     then or_else (simgridLastUpdated cfg) (discordTimestamp now)
                     else discordTimestamp now),
               shown_checked = discordTimestamp now\<rparr>;
          rp = simgrid_render_and_post cfg env (digest h l) c
      in if \<not> force \<and> unchanged \<and> mid \<noteq> [] then
           (if \<not> text_fetch_ok env then (fst rp, FetchMessage mid # fst (snd rp), snd (snd rp))
            else if \<not> text_edit_ok env
              then (fst rp, FetchMessage mid # EditText mid c # fst (snd rp), snd (snd rp))
            else (cfg\<lparr>simgridLastChecked := discordTimestamp now,
                      simgridLastUpdated := or_else (simgridLastUpdated cfg) (shown_updated c)\<rparr>,
                  [FetchMessage mid, EditText mid c, SaveConfig], False))
         else rp)"
  using assms
  by (auto simp: checkAndPostSimgrid_def Let_def case_prod_beta)

lemma applyUpdate_render_iff:
  "Render \<in> set (fst (snd (applyUpdate cfg env dataHash nowDate))) \<longleftrightarrow>
     \<not> (lastHash cfg \<noteq> [] \<and> lastHash cfg = dataHash) \<or> messageId cfg = [] \<or> \<not> text_fetch_ok env"
  by (auto simp: applyUpdate_def Let_def split: option.splits)

lemma applyUpdate_text_only:
  assumes "lastHash cfg \<noteq> []" "lastHash cfg = dataHash" "messageId cfg \<noteq> []" "text_fetch_ok env"
  shows "fst (snd (applyUpdate cfg env dataHash nowDate)) =
     [FetchMessage (messageId cfg),
      EditText (messageId cfg)
        \<lparr>shown_updated = or_else (lastUpdated cfg) (discordTimestamp nowDate),
         shown_checked = discordTimestamp nowDate\<rparr>]
     @ (if text_edit_ok env then [SaveConfig] else [])"
  using assms by (simp add: applyUpdate_def Let_def)

lemma simgrid_render_iff:
  assumes "js_trim (simgridHypercarUrl cfg) \<noteq> []" "js_trim (simgridLmgt3Url cfg) \<noteq> []"
    and "hyper_scrape env = Some h" "lmgt3_scrape env = Some l"
    and "filter url_like h = []" "filter url_like l = []"
  shows "Render \<in> set (fst (snd (checkAndPostSimgrid digest url_like cfg env force now))) \<longleftrightarrow>
     force \<or> \<not> (simgridLastHash cfg \<noteq> [] \<and> simgridLastHash cfg = digest h l)
     \<or> simgridMessageId cfg = [] \<or> \<not> text_fetch_ok env \<or> \<not> text_edit_ok env"
  unfolding checkAndPostSimgrid_reached[OF assms] Let_def
  using render_and_post_renders[of cfg env]
  by (auto simp del: One_nat_def)

lemma simgrid_text_only:
  assumes "js_trim (simgridHypercarUrl cfg) \<noteq> []" "js_trim (simgridLmgt3Url cfg) \<noteq> []"
    and "hyper_scrape env = Some h" "lmgt3_scrape env = Some l"
    and "filter url_like h = []" "filter url_like l = []"
    and "\<not> force" "simgridLastHash cfg \<noteq> []" "simgridLastHash cfg = digest h l"
    and "simgridMessageId cfg \<noteq> []" "text_fetch_ok env" "text_edit_ok env"
  shows "fst (snd (checkAndPostSimgrid digest url_like cfg env force now)) =
     [FetchMessage (simgridMessageId cfg),
      EditText (simgridMessageId cfg)
        \<lparr>shown_updated = or_else (simgridLastUpdated cfg) (discordTimestamp now),
         shown_checked = discordTimestamp now\<rparr>,
      SaveConfig]"
  unfolding checkAndPostSimgrid_reached[OF assms(1-6)] Let_def
  using assms(7-) by simp

text \<open>
  Claim C1, as the code has it. Once the SimGrid check has scraped both pages (URLs
  configured, both scrapes returned, no driver name looks like a URL) and the digest is
  not empty, checkAndPostSimgrid renders exactly when the digest of the scraped rows
  differs from the stored hash, or no message id is stored, or fetching the tracked
  message fails, or the text-only edit of the tracked message fails, or the refresh is
  forced; when the digest matches, the refresh is not forced and the tracked message is
  fetched and edited, the only calls are that fetch, an edit of the text without
  attachment, and saving the configuration. applyUpdate renders exactly when the digest
  differs from the stored hash, or no message id is stored, or fetching the tracked message
  fails; when the digest matches and the message is fetched, it edits the text only.
\<close>

theorem C1_change_detection:
  fixes digest :: "'r list \<Rightarrow> 'r list \<Rightarrow> jstring" and url_like :: "'r \<Rightarrow> bool"
    and cfg :: config and env :: "'r post_env" and force :: bool and now :: int
    and h l :: "'r list" and dataHash :: jstring
  assumes "js_trim (simgridHypercarUrl cfg) \<noteq> []" and "js_trim (simgridLmgt3Url cfg) \<noteq> []"
    and "hyper_scrape env = Some h" and "lmgt3_scrape env = Some l"
    and "filter url_like h = []" and "filter url_like l = []"
    and "digest h l \<noteq> []" and "dataHash \<noteq> []"
  shows "(Render \<in> set (fst (snd (checkAndPostSimgrid digest url_like cfg env force now))) \<longleftrightarrow>
            simgridLastHash cfg \<noteq> digest h l \<or> simgridMessageId cfg = []
            \<or> \<not> text_fetch_ok env \<or> \<not> text_edit_ok env \<or> force)
    \<and> (simgridLastHash cfg = digest h l \<and> simgridMessageId cfg \<noteq> [] \<and> text_fetch_ok env
          \<and> text_edit_ok env \<and> \<not> force \<longrightarrow>
          fst (snd (checkAndPostSimgrid digest url_like cfg env force now)) =
            [FetchMessage (simgridMessageId cfg),
             EditText (simgridMessageId cfg)
               \<lparr>shown_updated = or_else (simgridLastUpdated cfg) (discordTimestamp now),
                shown_checked = discordTimestamp now\<rparr>,
             SaveConfig])
    \<and> (Render \<in> set (fst (snd (applyUpdate cfg env dataHash now))) \<longleftrightarrow>
            lastHash cfg \<noteq> dataHash \<or> messageId cfg = [] \<or> \<not> text_fetch_ok env)
    \<and> (lastHash cfg = dataHash \<and> messageId cfg \<noteq> [] \<and> text_fetch_ok env \<longrightarrow>
          fst (snd (applyUpdate cfg env dataHash now)) =
            [FetchMessage (messageId cfg),
             EditText (messageId cfg)
               \<lparr>shown_updated = or_else (lastUpdated cfg) (discordTimestamp now),
                shown_checked = discordTimestamp now\<rparr>]
            @ (if text_edit_ok env then [SaveConfig] else []))"
proof (intro conjI impI)
  show "Render \<in> set (fst (snd (checkAndPostSimgrid digest url_like cfg env force now))) \<longleftrightarrow>
            simgridLastHash cfg \<noteq> digest h l \<or> simgridMessageId cfg = []
            \<or> \<not> text_fetch_ok env \<or> \<not> text_edit_ok env \<or> force"
    unfolding simgrid_render_iff[OF assms(1-6)] using assms(7) by auto
  show "fst (snd (checkAndPostSimgrid digest url_like cfg env force now)) =
            [FetchMessage (simgridMessageId cfg),
             EditText (simgridMessageId cfg)
               \<lparr>shown_updated = or_else (simgridLastUpdated cfg) (discordTimestamp now),
                shown_checked = discordTimestamp now\<rparr>,
             SaveConfig]"
    if "simgridLastHash cfg = digest h l \<and> simgridMessageId cfg \<noteq> [] \<and> text_fetch_ok env
          \<and> text_edit_ok env \<and> \<not> force"
    using that assms(7) by (intro simgrid_text_only[OF assms(1-6)]) simp_all
  show "Render \<in> set (fst (snd (applyUpdate cfg env dataHash now))) \<longleftrightarrow>
            lastHash cfg \<noteq> dataHash \<or> messageId cfg = [] \<or> \<not> text_fetch_ok env"
    unfolding applyUpdate_render_iff using assms(8) by auto
  show "fst (snd (applyUpdate cfg env dataHash now)) =
            [FetchMessage (messageId cfg),
             EditText (messageId cfg)
               \<lparr>shown_updated = or_else (lastUpdated cfg) (discordTimestamp now),
                shown_checked = discordTimestamp now\<rparr>]
            @ (if text_edit_ok env then [SaveConfig] else [])"
    if "lastHash cfg = dataHash \<and> messageId cfg \<noteq> [] \<and> text_fetch_ok env"
    using that assms(8) by (intro applyUpdate_text_only) simp_all
qed

lemma js_trim_letter: "js_trim [97] = [97]"
  by (simp add: js_trim_def is_space_def)

theorem C1_change_detection_witness:
  "js_trim [97] \<noteq> []
   \<and> filter is_space [104] = []
   \<and> [104] @ [] \<noteq> ([] :: nat list)
   \<and> fst (snd (checkAndPostSimgrid (@) is_space
        \<lparr>messageId = [109], lastHash = [104], lastUpdated = [117], lastChecked = [99],
         simgridMessageId = [110], simgridLastHash = [104], simgridLastUpdated = [117],
         simgridLastChecked = [99], simgridHypercarUrl = [97], simgridLmgt3Url = [97]\<rparr>
        \<lparr>hyper_scrape = Some [104], lmgt3_scrape = Some [], text_fetch_ok = True,
         text_edit_ok = True, render_ok = True, image_fetch_ok = True, image_edit_ok = True,
         send_result = Some [111]\<rparr> False 0))
      = [FetchMessage [110],
         EditText [110] \<lparr>shown_updated = [117], shown_checked = discordTimestamp 0\<rparr>,
         SaveConfig]
   \<and> Render \<in> set (fst (snd (checkAndPostSimgrid (@) is_space
        \<lparr>messageId = [109], lastHash = [104], lastUpdated = [117], lastChecked = [99],
         simgridMessageId = [110], simgridLastHash = [104], simgridLastUpdated = [117],
         simgridLastChecked = [99], simgridHypercarUrl = [97], simgridLmgt3Url = [97]\<rparr>
        \<lparr>hyper_scrape = Some [104], lmgt3_scrape = Some [], text_fetch_ok = True,
         text_edit_ok = True, render_ok = True, image_fetch_ok = True, image_edit_ok = True,
         send_result = Some [111]\<rparr> True 0)))"
proof -
  let ?cfg = "\<lparr>messageId = [109], lastHash = [104], lastUpdated = [117], lastChecked = [99],
         simgridMessageId = [110], simgridLastHash = [104], simgridLastUpdated = [117],
         simgridLastChecked = [99], simgridHypercarUrl = [97], simgridLmgt3Url = [97]\<rparr>"
  let ?env = "\<lparr>hyper_scrape = Some [104::nat], lmgt3_scrape = Some [], text_fetch_ok = True,
         text_edit_ok = True, render_ok = True, image_fetch_ok = True, image_edit_ok = True,
         send_result = Some [111]\<rparr>"
  have a: "js_trim (simgridHypercarUrl ?cfg) \<noteq> []" "js_trim (simgridLmgt3Url ?cfg) \<noteq> []"
    by (simp_all add: js_trim_letter)
  have b: "hyper_scrape ?env = Some [104]" "lmgt3_scrape ?env = Some []" by simp_all
  have c: "filter is_space [104] = []" "filter is_space [] = []" by (simp_all add: is_space_def)
  have d: "[104] @ [] \<noteq> ([] :: nat list)" "[104] \<noteq> ([] :: nat list)" by simp_all
  note A = C1_change_detection[where digest="(@)" and url_like=is_space and cfg="?cfg"
      and env="?env" and force=False and now=0 and dataHash="[104]", OF a b c d]
  note B = C1_change_detection[where digest="(@)" and url_like=is_space and cfg="?cfg"
      and env="?env" and force=True and now=0 and dataHash="[104]", OF a b c d]
  have h: "simgridLastHash ?cfg = [104] @ [] \<and> simgridMessageId ?cfg \<noteq> [] \<and> text_fetch_ok ?env
          \<and> text_edit_ok ?env \<and> \<not> False"
    by simp
  have "fst (snd (checkAndPostSimgrid (@) is_space ?cfg ?env False 0)) =
            [FetchMessage (simgridMessageId ?cfg),
             EditText (simgridMessageId ?cfg)
               \<lparr>shown_updated = or_else (simgridLastUpdated ?cfg) (discordTimestamp 0),
                shown_checked = discordTimestamp 0\<rparr>,
             SaveConfig]"
    using A h by blast
  then have p1: "fst (snd (checkAndPostSimgrid (@) is_space ?cfg ?env False 0)) =
      [FetchMessage [110],
       EditText [110] \<lparr>shown_updated = [117], shown_checked = discordTimestamp 0\<rparr>, SaveConfig]"
    by (simp add: or_else_def)
  have p2: "Render \<in> set (fst (snd (checkAndPostSimgrid (@) is_space ?cfg ?env True 0)))"
    using B by blast
  from a(1) c(1) d(1) p1 p2 show ?thesis by simp
qed

text \<open>
  The claim as stated fails on checkAndPostSimgrid: the stored hash equals the digest, the
  tracked message exists (its fetch succeeds) and the refresh is not forced, but the
  text-only edit throws, and the image is rendered and attached. Rows are numbers here,
  the digest parameter is list append and the URL test is \<open>is_space\<close>: only the equality of
  the digest with the stored hash matters.
\<close>

theorem C1_claim_counterexample:
  "simgridLastHash
       \<lparr>messageId = [109], lastHash = [104], lastUpdated = [117], lastChecked = [99],
        simgridMessageId = [110], simgridLastHash = [104], simgridLastUpdated = [117],
        simgridLastChecked = [99], simgridHypercarUrl = [97], simgridLmgt3Url = [97]\<rparr>
     = [104] @ []
   \<and> fst (snd (checkAndPostSimgrid (@) is_space
        \<lparr>messageId = [109], lastHash = [104], lastUpdated = [117], lastChecked = [99],
         simgridMessageId = [110], simgridLastHash = [104], simgridLastUpdated = [117],
         simgridLastChecked = [99], simgridHypercarUrl = [97], simgridLmgt3Url = [97]\<rparr>
        \<lparr>hyper_scrape = Some [104], lmgt3_scrape = Some [], text_fetch_ok = True,
         text_edit_ok = False, render_ok = True, image_fetch_ok = True, image_edit_ok = True,
         send_result = Some [111]\<rparr> False 0))
      = [FetchMessage [110],
         EditText [110] \<lparr>shown_updated = [117], shown_checked = discordTimestamp 0\<rparr>,
         Render,
         FetchMessage [110],
         EditImage [110] \<lparr>shown_updated = [117], shown_checked = discordTimestamp 0\<rparr>,
         SaveConfig]"
  by (simp add: checkAndPostSimgrid_def simgrid_render_and_post_def Let_def js_trim_letter
      is_space_def or_else_def)



























lemma wf_extend: "wf (col.extend c \<lparr>wf = v\<rparr>) = v"
  by (simp add: col.extend_def)
lemma c_w_extend: "c_w (col.extend c \<lparr>wf = v\<rparr>) = c_w c"
  by (simp add: col.extend_def)

lemma fl: "map (\<lambda>c. \<lfloor>wf c\<rfloor>) (map (\<lambda>c. col.extend c \<lparr>wf = of_int (c_w c) * s\<rparr>) cols)
   = map floor (map (\<lambda>c. of_int (c_w c) * s) cols)"
  by (simp add: wf_extend comp_def)













lemma str_includes_self: "str_includes s s"
  by (cases s) simp_all

lemma has_driver_iff:
  "some_header (\<lambda>h. h = js ''driver'' \<or> str_includes h (js ''driver'')) hn
     \<longleftrightarrow> (\<exists>h\<in>set hn. str_includes h (js ''driver''))"
  unfolding some_header_def list_ex_iff using str_includes_self by metis

lemma table_score_Some_iff:
  "table_score t \<noteq> None \<longleftrightarrow>
     2 \<le> length (tbl_data_rows t)
     \<and> (\<exists>hr. findHeaderRow t = Some hr
           \<and> (\<exists>h\<in>set (extractHeaderCells hr). str_includes (norm_text h) (js ''driver'')))"
proof (cases "findHeaderRow t")
  case None
  then show ?thesis by (simp add: table_score_def)
next
  case (Some hr)
  show ?thesis
    unfolding table_score_def Some option.case Let_def has_driver_iff
    by (auto simp del: str_includes.simps)
qed

lemma bonus_nonneg: "0 \<le> k \<Longrightarrow> 0 \<le> bonus c k"
  by (simp add: bonus_def)

lemma table_score_nonneg:
  assumes "table_score t = Some sc"
  shows "0 \<le> sc"
proof -
  from assms obtain hr where hr: "findHeaderRow t = Some hr"
    by (auto simp: table_score_def split: if_splits option.splits)
  from assms have "\<exists>a b c d e f g h i.
      sc = bonus a 2 + bonus b 2 + bonus c 1 + bonus d 1 + bonus e 1 + bonus f 1 + bonus g 2
           + bonus h 1 + bonus i 1 + of_nat (min (length (tbl_data_rows t)) 50) / 50"
    unfolding table_score_def hr option.case Let_def
    by (simp split: if_splits del: str_includes.simps) blast
  then obtain a b c d e f g h i where
    "sc = bonus a 2 + bonus b 2 + bonus c 1 + bonus d 1 + bonus e 1 + bonus f 1 + bonus g 2
           + bonus h 1 + bonus i 1 + of_nat (min (length (tbl_data_rows t)) 50) / 50"
    by blast
  then show ?thesis by (simp add: bonus_nonneg)
qed

lemma pick_loop_None:
  assumes "(best = None \<and> bs = - 1) \<or> (\<exists>b. best = Some b)"
  shows "pick_loop ts best bs = None \<longleftrightarrow> best = None \<and> (\<forall>t\<in>set ts. table_score t = None)"
  using assms
proof (induction ts arbitrary: best bs)
  case Nil
  then show ?case by simp
next
  case (Cons t ts)
  show ?case
  proof (cases "table_score t")
    case None
    with Cons.IH[OF Cons.prems] show ?thesis by simp
  next
    case (Some sc)
    have sc: "0 \<le> sc" using Some by (rule table_score_nonneg)
    show ?thesis
    proof (cases "sc > bs")
      case True
      have "pick_loop ts (Some t) sc \<noteq> None" using Cons.IH[of "Some t" sc] by simp
      with True Some show ?thesis by simp
    next
      case False
      with sc have "bs \<noteq> - 1" by auto
      with Cons.prems obtain b where b: "best = Some b" by auto
      then have "pick_loop ts best bs \<noteq> None" using Cons.IH[of best bs] by simp
      with False Some b show ?thesis by simp
    qed
  qed
qed

lemma pick_loop_Some:
  assumes "pick_loop ts best bs = Some r"
    and "(best = None \<and> bs = - 1) \<or> (\<exists>b. best = Some b \<and> table_score b = Some bs)"
  shows "(r \<in> set ts \<or> best = Some r)
     \<and> (\<exists>sc. table_score r = Some sc \<and> bs \<le> sc
           \<and> (\<forall>t\<in>set ts. \<forall>sc'. table_score t = Some sc' \<longrightarrow> sc' \<le> sc))"
  using assms
proof (induction ts arbitrary: best bs)
  case Nil
  then show ?case by auto
next
  case (Cons t ts)
  show ?case
  proof (cases "table_score t")
    case None
    with Cons.prems(1) have "pick_loop ts best bs = Some r" by simp
    from Cons.IH[OF this Cons.prems(2)] None show ?thesis by auto
  next
    case (Some sc)
    show ?thesis
    proof (cases "sc > bs")
      case True
      with Some Cons.prems(1) have "pick_loop ts (Some t) sc = Some r" by simp
      from Cons.IH[OF this] Some have
        "(r \<in> set ts \<or> Some t = Some r)
          \<and> (\<exists>s. table_score r = Some s \<and> sc \<le> s
               \<and> (\<forall>t\<in>set ts. \<forall>sc'. table_score t = Some sc' \<longrightarrow> sc' \<le> s))"
        by simp
      with True Some show ?thesis by auto
    next
      case False
      with Some Cons.prems(1) have "pick_loop ts best bs = Some r" by simp
      from Cons.IH[OF this Cons.prems(2)] have
        "(r \<in> set ts \<or> best = Some r)
          \<and> (\<exists>s. table_score r = Some s \<and> bs \<le> s
               \<and> (\<forall>t\<in>set ts. \<forall>sc'. table_score t = Some sc' \<longrightarrow> sc' \<le> s))" .
      with False Some show ?thesis by auto
    qed
  qed
qed

lemma pickBest_None_iff:
  "pickBestDxGridTable dxTables = None \<longleftrightarrow> (\<forall>t\<in>set dxTables. table_score t = None)"
  unfolding pickBestDxGridTable_def using pick_loop_None[of None "- 1" dxTables] by auto

lemma pickBest_Some:
  assumes "pickBestDxGridTable dxTables = Some r"
  shows "r \<in> set dxTables
     \<and> (\<exists>sc. table_score r = Some sc
           \<and> (\<forall>t\<in>set dxTables. \<forall>sc'. table_score t = Some sc' \<longrightarrow> sc' \<le> sc))"
proof -
  from assms have "pick_loop dxTables None (- 1) = Some r"
    by (simp add: pickBestDxGridTable_def split: if_splits)
  from pick_loop_Some[OF this] show ?thesis by auto
qed

lemma fetch_no_table:
  "pickBestDxGridTable dxTables = None \<Longrightarrow> fetchStandingsGeneric (Some dxTables) = Inl TableNotFound"
  by (simp add: fetchStandingsGeneric_def)

lemma fetch_unmapped:
  assumes "pickBestDxGridTable dxTables = Some t" "findHeaderRow t = Some hr"
    and "m_driver (mapColumnIndexes (fst (aligned_headers t hr))) < 0"
  shows "fetchStandingsGeneric (Some dxTables) = Inl (DriverNotMapped (fst (aligned_headers t hr)))"
  using assms by (simp add: fetchStandingsGeneric_def case_prod_beta Let_def)

lemma fetch_rows:
  assumes "fetchStandingsGeneric (Some dxTables) = Inr rs"
  shows "\<exists>t hr. pickBestDxGridTable dxTables = Some t \<and> findHeaderRow t = Some hr
     \<and> 0 \<le> m_driver (mapColumnIndexes (fst (aligned_headers t hr)))
     \<and> rs = parseRows t (mapColumnIndexes (fst (aligned_headers t hr))) (snd (aligned_headers t hr))"
  using assms
  by (auto simp: fetchStandingsGeneric_def case_prod_beta Let_def split: option.splits if_splits)

text \<open>
  Claim C4. A table returned by pickBestDxGridTable is one of the DevExpress tables of the
  page, has at least 2 data rows, has a header row that findHeaderRow finds, and has a
  header caption whose normalised text includes "driver"; its score is defined and no
  table of the page with a defined score has a larger one. The score of a table is
  defined exactly under these three conditions. The result is null exactly when no table
  of the page has a defined score. In that case fetchStandingsGeneric throws; it also
  throws when the driver column of the chosen table is not mapped; and whenever it
  returns rows, a table was chosen and its driver column was mapped.
\<close>

theorem C4_pick_table:
  fixes dxTables :: "dx_table list"
  shows "(\<forall>t. pickBestDxGridTable dxTables = Some t \<longrightarrow>
            t \<in> set dxTables \<and> 2 \<le> length (tbl_data_rows t)
          \<and> (\<exists>hr. findHeaderRow t = Some hr
                \<and> (\<exists>h\<in>set (extractHeaderCells hr). str_includes (norm_text h) (js ''driver'')))
          \<and> (\<exists>sc. table_score t = Some sc
                \<and> (\<forall>t'\<in>set dxTables. \<forall>sc'. table_score t' = Some sc' \<longrightarrow> sc' \<le> sc)))
    \<and> (\<forall>t. table_score t \<noteq> None \<longleftrightarrow>
            2 \<le> length (tbl_data_rows t)
          \<and> (\<exists>hr. findHeaderRow t = Some hr
                \<and> (\<exists>h\<in>set (extractHeaderCells hr). str_includes (norm_text h) (js ''driver''))))
    \<and> (pickBestDxGridTable dxTables = None \<longleftrightarrow> (\<forall>t\<in>set dxTables. table_score t = None))
    \<and> (pickBestDxGridTable dxTables = None \<longrightarrow>
          fetchStandingsGeneric (Some dxTables) = Inl TableNotFound)
    \<and> (\<forall>t hr. pickBestDxGridTable dxTables = Some t \<and> findHeaderRow t = Some hr
          \<and> m_driver (mapColumnIndexes (fst (aligned_headers t hr))) < 0 \<longrightarrow>
          fetchStandingsGeneric (Some dxTables) = Inl (DriverNotMapped (fst (aligned_headers t hr))))
    \<and> (\<forall>rs. fetchStandingsGeneric (Some dxTables) = Inr rs \<longrightarrow>
          (\<exists>t hr. pickBestDxGridTable dxTables = Some t \<and> findHeaderRow t = Some hr
             \<and> 0 \<le> m_driver (mapColumnIndexes (fst (aligned_headers t hr)))))"
proof (intro conjI allI impI)
  fix t assume p: "pickBestDxGridTable dxTables = Some t"
  from pickBest_Some[OF p] obtain sc where
    m: "t \<in> set dxTables" and sc: "table_score t = Some sc"
    and mx: "\<forall>t'\<in>set dxTables. \<forall>sc'. table_score t' = Some sc' \<longrightarrow> sc' \<le> sc"
    by blast
  from sc have "table_score t \<noteq> None" by simp
  then have q: "2 \<le> length (tbl_data_rows t)
     \<and> (\<exists>hr. findHeaderRow t = Some hr
           \<and> (\<exists>h\<in>set (extractHeaderCells hr). str_includes (norm_text h) (js ''driver'')))"
    unfolding table_score_Some_iff .
  show "t \<in> set dxTables" by (rule m)
  show "2 \<le> length (tbl_data_rows t)" using q by blast
  show "\<exists>hr. findHeaderRow t = Some hr
           \<and> (\<exists>h\<in>set (extractHeaderCells hr). str_includes (norm_text h) (js ''driver''))"
    using q by blast
  show "\<exists>sc. table_score t = Some sc
           \<and> (\<forall>t'\<in>set dxTables. \<forall>sc'. table_score t' = Some sc' \<longrightarrow> sc' \<le> sc)"
    using sc mx by blast
next
  fix t
  show "table_score t \<noteq> None \<longleftrightarrow>
            2 \<le> length (tbl_data_rows t)
          \<and> (\<exists>hr. findHeaderRow t = Some hr
                \<and> (\<exists>h\<in>set (extractHeaderCells hr). str_includes (norm_text h) (js ''driver'')))"
    by (rule table_score_Some_iff)
next
  show "pickBestDxGridTable dxTables = None \<longleftrightarrow> (\<forall>t\<in>set dxTables. table_score t = None)"
    by (rule pickBest_None_iff)
next
  assume "pickBestDxGridTable dxTables = None"
  then show "fetchStandingsGeneric (Some dxTables) = Inl TableNotFound" by (rule fetch_no_table)
next
  fix t hr
  assume "pickBestDxGridTable dxTables = Some t \<and> findHeaderRow t = Some hr
          \<and> m_driver (mapColumnIndexes (fst (aligned_headers t hr))) < 0"
  then show "fetchStandingsGeneric (Some dxTables) = Inl (DriverNotMapped (fst (aligned_headers t hr)))"
    using fetch_unmapped by blast
next
  fix rs assume "fetchStandingsGeneric (Some dxTables) = Inr rs"
  from fetch_rows[OF this]
  show "\<exists>t hr. pickBestDxGridTable dxTables = Some t \<and> findHeaderRow t = Some hr
             \<and> 0 \<le> m_driver (mapColumnIndexes (fst (aligned_headers t hr)))"
    by blast
qed

lemma demo_header_found: "findHeaderRow demo_table = Some demo_header_row"
  by (simp add: findHeaderRow_def demo_table_def demo_header_row_def js_def suffix_to_prefix)

lemma demo_headers: "map norm_text (extractHeaderCells demo_header_row) = [js ''driver'']"
  by (simp add: extractHeaderCells_def demo_header_row_def norm_text_def js_def js_trim_def
      is_space_def to_lower_def lower_char_def)

lemma demo_score: "table_score demo_table = Some (2 / 50)"
  unfolding table_score_def demo_header_found option.case Let_def demo_headers
  by (simp add: demo_table_def some_header_def bonus_def js_def)

lemma demo_empty_score: "table_score demo_empty_table = None"
  by (simp add: table_score_def demo_empty_table_def)

lemma demo_pick: "pickBestDxGridTable [demo_empty_table, demo_table] = Some demo_table"
  by (simp add: pickBestDxGridTable_def demo_score demo_empty_score)

lemma demo_pick_none: "pickBestDxGridTable [demo_empty_table] = None"
  by (simp add: pickBestDxGridTable_def demo_empty_score)

theorem C4_pick_table_witness:
  "pickBestDxGridTable [demo_empty_table, demo_table] = Some demo_table
   \<and> demo_table \<in> set [demo_empty_table, demo_table]
   \<and> 2 \<le> length (tbl_data_rows demo_table)
   \<and> table_score demo_table = Some (1 / 25)
   \<and> pickBestDxGridTable [demo_empty_table] = None
   \<and> fetchStandingsGeneric (Some [demo_empty_table]) = Inl TableNotFound"
proof -
  note A = C4_pick_table[where dxTables="[demo_empty_table, demo_table]"]
  note B = C4_pick_table[where dxTables="[demo_empty_table]"]
  have a: "demo_table \<in> set [demo_empty_table, demo_table] \<and> 2 \<le> length (tbl_data_rows demo_table)"
    using A demo_pick by blast
  have b: "fetchStandingsGeneric (Some [demo_empty_table]) = Inl TableNotFound"
    using B demo_pick_none by blast
  have c: "table_score demo_table = Some (1 / 25)" using demo_score by simp
  from a b c demo_pick demo_pick_none show ?thesis by blast
qed

lemma strip_right_decomp:
  "s = rev (dropWhile P (rev s)) @ rev (takeWhile P (rev s))"
proof -
  have "rev s = takeWhile P (rev s) @ dropWhile P (rev s)" by simp
  then have "rev (rev s) = rev (takeWhile P (rev s) @ dropWhile P (rev s))" by simp
  then show ?thesis by (simp del: takeWhile_dropWhile_id)
qed

lemma list_all_takeWhile: "list_all P (takeWhile P xs)"
  by (induction xs) simp_all

lemma js_trim_decomp:
  "\<exists>a b. list_all is_space a \<and> list_all is_space b \<and> s = a @ js_trim s @ b"
proof -
  let ?u = "dropWhile is_space s"
  have 1: "s = takeWhile is_space s @ ?u" by simp
  have 2: "?u = js_trim s @ rev (takeWhile is_space (rev ?u))"
    unfolding js_trim_def by (rule strip_right_decomp)
  have "s = takeWhile is_space s @ js_trim s @ rev (takeWhile is_space (rev ?u))"
    using 1 2 by metis
  moreover have "list_all is_space (takeWhile is_space s)" by (rule list_all_takeWhile)
  moreover have "list_all is_space (rev (takeWhile is_space (rev ?u)))"
    using list_all_takeWhile[of is_space "rev ?u"] by (simp add: list_all_iff)
  ultimately show ?thesis by blast
qed

lemma rating_tail_Some:
  assumes "rating_tail t = Some r"
  shows "\<exists>ws. list_all is_space ws \<and> t = r @ ws"
    and "\<exists>lead gs. r = lead @ gs \<and> lead \<noteq> [] \<and> length lead \<le> 3 \<and> list_all is_digit lead
           \<and> comma_groups gs"
proof -
  let ?body = "rev (dropWhile is_space (rev t))"
  from assms have r: "r = ?body"
    and c: "takeWhile is_digit ?body \<noteq> []" "length (takeWhile is_digit ?body) \<le> 3"
       "comma_groups (dropWhile is_digit ?body)"
    by (simp_all add: rating_tail_def Let_def split: if_splits)
  have "t = r @ rev (takeWhile is_space (rev t))" unfolding r by (rule strip_right_decomp)
  moreover have "list_all is_space (rev (takeWhile is_space (rev t)))"
    using list_all_takeWhile[of is_space "rev t"] by (simp add: list_all_iff)
  ultimately show "\<exists>ws. list_all is_space ws \<and> t = r @ ws" by blast
  have "r = takeWhile is_digit r @ dropWhile is_digit r" by simp
  moreover have "list_all is_digit (takeWhile is_digit r)" by (rule list_all_takeWhile)
  ultimately show "\<exists>lead gs. r = lead @ gs \<and> lead \<noteq> [] \<and> length lead \<le> 3 \<and> list_all is_digit lead
           \<and> comma_groups gs"
    using c unfolding r[symmetric] by blast
qed

lemma split_rating_Some:
  assumes "split_rating s = Some (p, r)"
  shows "\<exists>w ws. is_space w \<and> list_all is_space ws \<and> s = p @ [w] @ r @ ws
           \<and> rating_tail (r @ ws) = Some r"
  using assms
proof (induction s arbitrary: p)
  case Nil
  then show ?case by simp
next
  case (Cons c cs)
  show ?case
  proof (cases "is_space c \<and> rating_tail cs \<noteq> None")
    case True
    then obtain r' where r': "rating_tail cs = Some r'" by auto
    with True Cons.prems have pr: "p = []" "r = r'" by simp_all
    from rating_tail_Some(1)[OF r'] obtain ws where "list_all is_space ws" "cs = r' @ ws" by blast
    with True r' pr show ?thesis by (intro exI[of _ c] exI[of _ ws]) simp
  next
    case False
    then have n: "(if is_space c then rating_tail cs else None) = None" by auto
    with Cons.prems obtain p' where p': "split_rating cs = Some (p', r)" "p = c # p'"
      by (auto split: option.splits)
    from Cons.IH[OF p'(1)] obtain w ws where
      "is_space w" "list_all is_space ws" "cs = p' @ [w] @ r @ ws" "rating_tail (r @ ws) = Some r"
      by blast
    with p'(2) show ?thesis by (intro exI[of _ w] exI[of _ ws]) simp
  qed
qed

lemma flag_match_Some:
  assumes "flag_match raw = Some (f, n)"
  shows "\<exists>f1 f2 w rest. raw = f1 # f2 # w # rest \<and> is_ri f1 \<and> is_ri f2 \<and> is_space w
           \<and> f = [f1, f2] \<and> n = 2 + length (takeWhile is_space (w # rest))"
proof -
  from assms obtain f1 f2 rest where raw: "raw = f1 # f2 # rest"
    by (auto simp: flag_match_def split: list.splits)
  from assms have c: "is_ri f1" "is_ri f2" "takeWhile is_space rest \<noteq> []" "f = [f1, f2]"
    "n = 2 + length (takeWhile is_space rest)"
    unfolding raw flag_match_def by (simp_all split: if_splits)
  from c(3) obtain w rest' where "rest = w # rest'" "is_space w"
    by (cases rest) (auto split: if_splits)
  with raw c show ?thesis by blast
qed

lemma flag_match_flag:
  assumes "is_ri f1" "is_ri f2" "is_space w"
  shows "flag_match (f1 # f2 # w # rest)
           = Some ([f1, f2], 2 + length (takeWhile is_space (w # rest)))"
  using assms by (simp add: flag_match_def)

lemma parse_driver_flag_part:
  "\<exists>a c. list_all is_space a \<and> list_all is_space c
     \<and> t = (case flag_match t of None \<Rightarrow> [] | Some (f, n) \<Rightarrow> f) @ a
           @ (case flag_match t of None \<Rightarrow> t | Some (f, n) \<Rightarrow> js_trim (drop n t)) @ c
     \<and> (flag_match t \<noteq> None \<longrightarrow> a \<noteq> [])"
proof (cases "flag_match t")
  case None
  then show ?thesis by (intro exI[of _ "[]"]) simp
next
  case (Some fn)
  obtain f n where fn: "fn = (f, n)" by (cases fn)
  from flag_match_Some[OF Some[unfolded fn]] obtain f1 f2 w rest where
    t: "t = f1 # f2 # w # rest" and w: "is_space w" and f: "f = [f1, f2]"
    and n: "n = 2 + length (takeWhile is_space (w # rest))"
    by blast
  let ?sp = "takeWhile is_space (w # rest)"
  let ?u = "dropWhile is_space (w # rest)"
  have sp: "?sp \<noteq> []" "list_all is_space ?sp" using w by (simp_all add: list_all_takeWhile)
  have d: "drop n t = ?u"
    unfolding t n by (simp add: dropWhile_eq_drop del: dropWhile.simps takeWhile.simps)
  from js_trim_decomp[of ?u] obtain a1 c1 where
    ac: "list_all is_space a1" "list_all is_space c1" "?u = a1 @ js_trim ?u @ c1"
    by blast
  have "w # rest = ?sp @ ?u" by (simp del: dropWhile.simps takeWhile.simps)
  then have "t = f @ (?sp @ a1) @ js_trim ?u @ c1"
    unfolding t f using ac(3) by (metis append_Cons append_Nil append_assoc)
  moreover have "list_all is_space (?sp @ a1)" using sp(2) ac(1) by simp
  moreover have "?sp @ a1 \<noteq> []" using sp(1) by simp
  ultimately show ?thesis
    unfolding Some fn option.case prod.case d using ac(2) by blast
qed

lemma parse_driver_decomp:
  "\<exists>a b c. list_all is_space a \<and> list_all is_space b \<and> list_all is_space c
     \<and> t = fst (parse_driver t) @ a @ fst (snd (parse_driver t)) @ b
           @ snd (snd (parse_driver t)) @ c
     \<and> (fst (parse_driver t) \<noteq> [] \<longrightarrow> a \<noteq> [])
     \<and> (snd (snd (parse_driver t)) \<noteq> [] \<longrightarrow> b \<noteq> [])"
proof -
  define flag where "flag = (case flag_match t of None \<Rightarrow> [] | Some (f, n) \<Rightarrow> f)"
  define dt where "dt = (case flag_match t of None \<Rightarrow> t | Some (f, n) \<Rightarrow> js_trim (drop n t))"
  from parse_driver_flag_part[of t] obtain a0 c0 where
    a0: "list_all is_space a0" and c0: "list_all is_space c0"
    and t: "t = flag @ a0 @ dt @ c0" and fa: "flag_match t \<noteq> None \<longrightarrow> a0 \<noteq> []"
    unfolding flag_def dt_def by blast
  have fl: "flag \<noteq> [] \<longrightarrow> a0 \<noteq> []" using fa unfolding flag_def by (auto split: option.splits)
  have pd: "parse_driver t =
      (case split_rating dt of None \<Rightarrow> (flag, dt, [])
       | Some (before, r) \<Rightarrow> (flag, js_trim before, r))"
    unfolding parse_driver_def Let_def flag_def dt_def ..
  show ?thesis
  proof (cases "split_rating dt")
    case None
    then have v: "fst (parse_driver t) = flag" "fst (snd (parse_driver t)) = dt"
      "snd (snd (parse_driver t)) = []"
      unfolding pd by simp_all
    have "t = flag @ a0 @ dt @ [] @ [] @ c0" using t by simp
    with a0 c0 fl show ?thesis unfolding v
      by (intro exI[of _ a0] exI[of _ "[]"] exI[of _ c0]) simp
  next
    case (Some pr)
    obtain p r where pr: "pr = (p, r)" by (cases pr)
    from Some have v: "fst (parse_driver t) = flag" "fst (snd (parse_driver t)) = js_trim p"
      "snd (snd (parse_driver t)) = r"
      unfolding pd pr by simp_all
    from split_rating_Some[OF Some[unfolded pr]] obtain w ws where
      w: "is_space w" and ws: "list_all is_space ws" and dt': "dt = p @ [w] @ r @ ws"
      by blast
    from js_trim_decomp[of p] obtain a2 b2 where
      a2: "list_all is_space a2" and b2: "list_all is_space b2" and p: "p = a2 @ js_trim p @ b2"
      by blast
    have "t = flag @ a0 @ (a2 @ js_trim p @ b2) @ [w] @ r @ ws @ c0"
      using t dt' p by (metis append_assoc)
    then have "t = flag @ (a0 @ a2) @ js_trim p @ (b2 @ [w]) @ r @ (ws @ c0)" by simp
    moreover have "list_all is_space (a0 @ a2)" "list_all is_space (b2 @ [w])"
      "list_all is_space (ws @ c0)"
      using a0 a2 b2 w ws c0 by simp_all
    moreover have "flag \<noteq> [] \<longrightarrow> a0 @ a2 \<noteq> []" using fl by simp
    moreover have "b2 @ [w] \<noteq> []" by simp
    ultimately show ?thesis unfolding v
      by (intro exI[of _ "a0 @ a2"] exI[of _ "b2 @ [w]"] exI[of _ "ws @ c0"]) blast
  qed
qed

lemma parse_driver_fst:
  "fst (parse_driver t) = (case flag_match t of None \<Rightarrow> [] | Some (f, n) \<Rightarrow> f)"
  by (simp add: parse_driver_def Let_def split: option.splits prod.splits)

lemma parse_driver_flag_found:
  assumes "is_ri f1" "is_ri f2" "is_space w"
  shows "fst (parse_driver (f1 # f2 # w # rest)) = [f1, f2]"
  unfolding parse_driver_fst flag_match_flag[OF assms] by simp

lemma parse_driver_flag_only_if:
  assumes "fst (parse_driver t) \<noteq> []"
  shows "\<exists>f1 f2 w rest. t = f1 # f2 # w # rest \<and> is_ri f1 \<and> is_ri f2 \<and> is_space w"
proof -
  from assms obtain f n where "flag_match t = Some (f, n)"
    unfolding parse_driver_fst by (auto split: option.splits)
  from flag_match_Some[OF this] show ?thesis by blast
qed

lemma parse_driver_rating_form:
  assumes "snd (snd (parse_driver t)) \<noteq> []"
  shows "\<exists>lead gs. snd (snd (parse_driver t)) = lead @ gs \<and> lead \<noteq> [] \<and> length lead \<le> 3
           \<and> list_all is_digit lead \<and> comma_groups gs"
proof -
  define dt where "dt = (case flag_match t of None \<Rightarrow> t | Some (f, n) \<Rightarrow> js_trim (drop n t))"
  have pd: "snd (snd (parse_driver t)) =
      (case split_rating dt of None \<Rightarrow> [] | Some (before, r) \<Rightarrow> r)"
    unfolding parse_driver_def Let_def dt_def by (simp split: option.splits prod.splits)
  from assms obtain p r where s: "split_rating dt = Some (p, r)" and r: "snd (snd (parse_driver t)) = r"
    unfolding pd by (auto split: option.splits)
  from split_rating_Some[OF s] obtain ws where "rating_tail (r @ ws) = Some r" by blast
  from rating_tail_Some(2)[OF this] show ?thesis unfolding r .
qed

lemma hex_digit_lower: "d < 16 \<Longrightarrow> lower_char (hex_digit d) = [hex_digit d]"
  by (simp add: lower_char_def hex_digit_def)

lemma to_lower_append: "to_lower (a @ b) = to_lower a @ to_lower b"
  by (simp add: to_lower_def)

lemma to_lower_hex: "to_lower (hex n) = hex n"
proof (induction n rule: hex.induct)
  case (1 n)
  show ?case
  proof (cases "n < 16")
    case True
    then show ?thesis
      by (subst (1 2) hex.simps) (simp add: to_lower_def hex_digit_lower)
  next
    case False
    have m: "n mod 16 < 16" by simp
    from False "1.IH" show ?thesis
      by (subst (1 2) hex.simps) (simp add: to_lower_append, simp add: to_lower_def hex_digit_lower[OF m])
  qed
qed

lemma twemoji_pair:
  "flagEmojiToTwemojiPng [f1, f2] =
     js ''https://cdnjs.cloudflare.com/ajax/libs/twemoji/14.0.2/72x72/''
       @ hex f1 @ js ''-'' @ hex f2 @ js ''.png''"
proof -
  have "to_lower (js ''-'') = js ''-''" by (simp add: to_lower_def js_def lower_char_def)
  then show ?thesis
    by (simp add: flagEmojiToTwemojiPng_def to_lower_append to_lower_hex)
qed

lemma simgrid_row_of_None:
  "simgrid_row_of r = None \<longleftrightarrow> fst (snd (parse_driver (cleanText (sg_entrant_name r)))) = []"
  by (simp add: simgrid_row_of_def Let_def case_prod_beta)

lemma simgrid_row_of_Some:
  assumes "simgrid_row_of r = Some rw"
  shows "driver rw = fst (snd (parse_driver (cleanText (sg_entrant_name r))))"
    and "rating rw = snd (snd (parse_driver (cleanText (sg_entrant_name r))))"
    and "countryImg rw = flagEmojiToTwemojiPng (fst (parse_driver (cleanText (sg_entrant_name r))))"
    and "driver rw \<noteq> []"
  using assms
  by (auto simp: simgrid_row_of_def Let_def case_prod_beta flagEmojiToTwemojiPng_def
      split: if_splits)

lemma fetched_rows_have_driver:
  assumes "fetchSimgridStandings page = Inr rws" "rw \<in> set rws"
  shows "driver rw \<noteq> [] \<and> (\<exists>trs r. page = Some (Some trs) \<and> r \<in> set trs
           \<and> simgrid_row_of r = Some rw)"
proof -
  from assms(1) obtain trs where p: "page = Some (Some trs)"
    and rws: "rws = List.map_filter simgrid_row_of trs"
    by (auto simp: fetchSimgridStandings_def split: option.splits)
  from assms(2) obtain r where r: "r \<in> set trs" "simgrid_row_of r = Some rw"
    unfolding rws by (auto simp: map_filter_def)
  with simgrid_row_of_Some(4)[OF r(2)] p show ?thesis by blast
qed

lemma digit_not_space: "is_digit c \<Longrightarrow> \<not> is_space c"
  by (auto simp: is_digit_def is_space_def)

lemma comma_not_space: "\<not> is_space 44"
  by (simp add: is_space_def)

lemma comma_groups_chars: "comma_groups g \<Longrightarrow> \<forall>c\<in>set g. c = 44 \<or> is_digit c"
  by (induction g rule: comma_groups.induct) auto

lemma comma_groups_hd: "comma_groups g \<Longrightarrow> \<exists>g'. g = 44 # g'"
  by (induction g rule: comma_groups.induct) auto

lemma comma_groups_last: "comma_groups g \<Longrightarrow> g \<noteq> [] \<and> is_digit (last g)"
  by (induction g rule: comma_groups.induct) auto

lemma rating_chars:
  assumes "list_all is_digit lead" "comma_groups gs"
  shows "\<forall>c\<in>set (lead @ gs). \<not> is_space c"
  using assms comma_groups_chars[OF assms(2)] digit_not_space comma_not_space
  by (auto simp: list_all_iff)

lemma rating_tail_complete:
  assumes ws: "list_all is_space ws"
    and lead: "lead \<noteq> []" "length lead \<le> 3" "list_all is_digit lead"
    and gs: "comma_groups gs"
  shows "rating_tail ((lead @ gs) @ ws) = Some (lead @ gs)"
proof -
  let ?rt = "lead @ gs"
  from comma_groups_last[OF gs] have ne: "gs \<noteq> []" and lst: "is_digit (last gs)" by simp_all
  have "rev ?rt = last gs # rev (butlast ?rt)"
    using ne by (metis append_butlast_last_id append_is_Nil_conv last_appendR rev.simps(2) rev_append rev_rev_ident rev_singleton_conv)
  then have d2: "dropWhile is_space (rev ?rt) = rev ?rt"
    using digit_not_space[OF lst] by simp
  have "dropWhile is_space (rev ws @ rev ?rt) = dropWhile is_space (rev ?rt)"
    using ws by (intro dropWhile_append2) (simp add: list_all_iff)
  then have "dropWhile is_space (rev (?rt @ ws)) = dropWhile is_space (rev ?rt)"
    by (simp only: rev_append)
  then have body: "rev (dropWhile is_space (rev (?rt @ ws))) = ?rt" using d2 by simp
  from comma_groups_hd[OF gs] obtain g' where g': "gs = 44 # g'" by blast
  have nd: "\<not> is_digit 44" by (simp add: is_digit_def)
  have tw: "takeWhile is_digit ?rt = lead"
    using lead(3) nd unfolding g' by (simp add: list_all_iff takeWhile_append2)
  have dw: "dropWhile is_digit ?rt = gs"
    using lead(3) nd unfolding g' by (simp add: list_all_iff dropWhile_append2)
  show ?thesis
    unfolding rating_tail_def Let_def body tw dw using lead gs by simp
qed

lemma rating_tail_earlier:
  assumes w: "is_space w"
    and lead: "lead \<noteq> []" "list_all is_digit lead"
  shows "rating_tail (p @ [w] @ (lead @ gs) @ ws) = None"
proof (rule ccontr)
  assume "rating_tail (p @ [w] @ (lead @ gs) @ ws) \<noteq> None"
  then obtain r where r: "rating_tail (p @ [w] @ (lead @ gs) @ ws) = Some r" by blast
  from rating_tail_Some(1)[OF r] obtain ws' where
    ws': "list_all is_space ws'" and eq: "p @ [w] @ (lead @ gs) @ ws = r @ ws'" by blast
  from rating_tail_Some(2)[OF r] obtain l' g' where
    "r = l' @ g'" "list_all is_digit l'" "comma_groups g'" by blast
  then have rns: "\<forall>c\<in>set r. \<not> is_space c" using rating_chars by blast
  from lead obtain d lead' where d: "lead = d # lead'" "is_digit d" by (cases lead) auto
  from eq have "p @ ([w] @ (lead @ gs) @ ws) = r @ ws'" by simp
  then consider us where "p = r @ us" "us @ ([w] @ (lead @ gs) @ ws) = ws'"
    | us where "p @ us = r" "[w] @ (lead @ gs) @ ws = us @ ws'"
    unfolding append_eq_append_conv2 by blast
  then show False
  proof cases
    case 1
    then have "d \<in> set ws'" unfolding d by auto
    with ws' have "is_space d" by (simp add: list_all_iff)
    with d(2) digit_not_space show False by blast
  next
    case 2
    show False
    proof (cases us)
      case Nil
      with 2 have "d \<in> set ws'" unfolding d by auto
      with ws' have "is_space d" by (simp add: list_all_iff)
      with d(2) digit_not_space show False by blast
    next
      case (Cons u us')
      with 2 have "u = w" "w \<in> set r" by auto
      with rns w show False by blast
    qed
  qed
qed

lemma split_rating_complete:
  assumes w: "is_space w" and ws: "list_all is_space ws"
    and lead: "lead \<noteq> []" "length lead \<le> 3" "list_all is_digit lead"
    and gs: "comma_groups gs"
  shows "split_rating (p @ [w] @ (lead @ gs) @ ws) = Some (p, lead @ gs)"
proof (induction p)
  case Nil
  show ?case using w rating_tail_complete[OF ws lead gs] by simp
next
  case (Cons c p)
  have "rating_tail (p @ [w] @ (lead @ gs) @ ws) = None"
    by (rule rating_tail_earlier[OF w lead(1,3)])
  then show ?case using Cons.IH by simp
qed

lemma js_trim_dropWhile: "js_trim (dropWhile is_space s) = js_trim s"
  by (simp add: js_trim_def)

lemma parse_driver_text:
  "parse_driver t =
     (case split_rating (if fst (parse_driver t) = [] then t else js_trim (drop 2 t)) of
        None \<Rightarrow> (fst (parse_driver t), (if fst (parse_driver t) = [] then t else js_trim (drop 2 t)), [])
      | Some (before, r) \<Rightarrow> (fst (parse_driver t), js_trim before, r))"
proof (cases "flag_match t")
  case None
  then have f: "fst (parse_driver t) = []" unfolding parse_driver_fst by simp
  show ?thesis unfolding f using None
    by (simp add: parse_driver_def Let_def split: option.splits)
next
  case (Some fn)
  obtain f n where fn: "fn = (f, n)" by (cases fn)
  from flag_match_Some[OF Some[unfolded fn]] obtain f1 f2 w rest where
    t: "t = f1 # f2 # w # rest" and f: "f = [f1, f2]"
    and n: "n = 2 + length (takeWhile is_space (w # rest))"
    by blast
  have ff: "fst (parse_driver t) = [f1, f2]" unfolding parse_driver_fst Some fn f by simp
  have "drop n t = dropWhile is_space (w # rest)"
    unfolding t n by (simp add: dropWhile_eq_drop del: dropWhile.simps takeWhile.simps)
  then have d: "js_trim (drop n t) = js_trim (drop 2 t)"
    unfolding t by (simp add: js_trim_dropWhile del: dropWhile.simps)
  show ?thesis unfolding ff using Some fn f d
    by (simp add: parse_driver_def Let_def split: option.splits)
qed

lemma parse_driver_rating_found:
  assumes "(if fst (parse_driver t) = [] then t else js_trim (drop 2 t))
             = p @ [w] @ (lead @ gs) @ ws"
    and "is_space w" "list_all is_space ws"
    and "lead \<noteq> []" "length lead \<le> 3" "list_all is_digit lead" "comma_groups gs"
  shows "snd (snd (parse_driver t)) = lead @ gs" and "fst (snd (parse_driver t)) = js_trim p"
proof -
  have s: "split_rating (if fst (parse_driver t) = [] then t else js_trim (drop 2 t))
             = Some (p, lead @ gs)"
    unfolding assms(1) by (rule split_rating_complete[OF assms(2-7)])
  have "parse_driver t = (fst (parse_driver t), js_trim p, lead @ gs)"
    by (subst parse_driver_text) (simp add: s)
  then have "snd (parse_driver t) = (js_trim p, lead @ gs)" by (metis snd_conv)
  then show "snd (snd (parse_driver t)) = lead @ gs" and "fst (snd (parse_driver t)) = js_trim p"
    by simp_all
qed

lemma parse_driver_no_rating:
  assumes "snd (snd (parse_driver t)) = []"
  shows "fst (snd (parse_driver t)) = (if fst (parse_driver t) = [] then t else js_trim (drop 2 t))"
proof -
  let ?dt = "if fst (parse_driver t) = [] then t else js_trim (drop 2 t)"
  show ?thesis
  proof (cases "split_rating ?dt")
    case None
    have "parse_driver t = (fst (parse_driver t), ?dt, [])"
      by (subst parse_driver_text) (simp add: None)
    then have "snd (parse_driver t) = (?dt, [])" by (metis snd_conv)
    then show ?thesis by simp
  next
    case (Some pr)
    obtain p r where pr: "pr = (p, r)" by (cases pr)
    have "parse_driver t = (fst (parse_driver t), js_trim p, r)"
      by (subst parse_driver_text) (simp add: Some pr)
    then have "snd (parse_driver t) = (js_trim p, r)" by (metis snd_conv)
    with assms have "r = []" by simp
    moreover from split_rating_Some[OF Some[unfolded pr]] obtain ws where
      "rating_tail (r @ ws) = Some r" by blast
    from rating_tail_Some(2)[OF this] have "r \<noteq> []" by auto
    ultimately show ?thesis by simp
  qed
qed

lemma parse_driver_rating_where:
  assumes "snd (snd (parse_driver t)) \<noteq> []"
  shows "\<exists>p w ws. (if fst (parse_driver t) = [] then t else js_trim (drop 2 t))
                     = p @ [w] @ snd (snd (parse_driver t)) @ ws
           \<and> is_space w \<and> list_all is_space ws \<and> fst (snd (parse_driver t)) = js_trim p"
proof -
  let ?dt = "if fst (parse_driver t) = [] then t else js_trim (drop 2 t)"
  show ?thesis
  proof (cases "split_rating ?dt")
    case None
    have "parse_driver t = (fst (parse_driver t), ?dt, [])"
      by (subst parse_driver_text) (simp add: None)
    then have "snd (parse_driver t) = (?dt, [])" by (metis snd_conv)
    with assms show ?thesis by simp
  next
    case (Some pr)
    obtain p r where pr: "pr = (p, r)" by (cases pr)
    have "parse_driver t = (fst (parse_driver t), js_trim p, r)"
      by (subst parse_driver_text) (simp add: Some pr)
    then have "snd (parse_driver t) = (js_trim p, r)" by (metis snd_conv)
    then have v: "fst (snd (parse_driver t)) = js_trim p" "snd (snd (parse_driver t)) = r"
      by simp_all
    from split_rating_Some[OF Some[unfolded pr]] obtain w ws where
      "is_space w" "list_all is_space ws" "?dt = p @ [w] @ r @ ws" by blast
    then show ?thesis unfolding v by blast
  qed
qed

text \<open>
  Claim C10, as the code has it. For a row of the results table let t be the cleaned text
  of the entrant link. When t starts with two regional-indicator code points followed by
  white space, the flag is these two code points and countryImg is the Twemoji URL built
  from their lower-case hexadecimal numerals joined by a hyphen; a flag is found in no
  other case, and countryImg is empty then. Let u be the text that is left: t itself when
  no flag is found, and otherwise t without its first two code points, trimmed. Whenever
  u is some text p, one white-space character, a comma-grouped number (1 to 3 digits
  followed by one or more groups of a comma and three digits) and white space up to the
  end, the rating is that number and the driver is p trimmed; a rating that is not empty
  arises in this way only and has this form; and when the rating is empty the driver is
  u. The text t is the flag, white space, the driver, white space, the rating and white
  space, in this order, the white space after a flag and before a rating not being empty;
  so the driver returned is what lies between the removed flag and the removed rating. A
  row is skipped exactly when this driver is empty, and every row returned has a driver
  that is not empty.
\<close>

theorem C10_simgrid_driver:
  fixes r :: sg_tr
  defines "t \<equiv> cleanText (sg_entrant_name r)"
  defines "u \<equiv> (if fst (parse_driver t) = [] then t else js_trim (drop 2 t))"
  shows "(simgrid_row_of r = None \<longleftrightarrow> fst (snd (parse_driver t)) = [])
    \<and> (\<forall>rw. simgrid_row_of r = Some rw \<longrightarrow>
          driver rw = fst (snd (parse_driver t)) \<and> rating rw = snd (snd (parse_driver t))
          \<and> countryImg rw = flagEmojiToTwemojiPng (fst (parse_driver t)) \<and> driver rw \<noteq> [])
    \<and> (\<forall>f1 f2 w rest. t = f1 # f2 # w # rest \<and> is_ri f1 \<and> is_ri f2 \<and> is_space w \<longrightarrow>
          fst (parse_driver t) = [f1, f2]
          \<and> flagEmojiToTwemojiPng [f1, f2] =
              js ''https://cdnjs.cloudflare.com/ajax/libs/twemoji/14.0.2/72x72/''
                @ hex f1 @ js ''-'' @ hex f2 @ js ''.png'')
    \<and> (fst (parse_driver t) \<noteq> [] \<longrightarrow>
          (\<exists>f1 f2 w rest. t = f1 # f2 # w # rest \<and> is_ri f1 \<and> is_ri f2 \<and> is_space w))
    \<and> flagEmojiToTwemojiPng [] = []
    \<and> (\<forall>p w lead gs ws.
          u = p @ [w] @ (lead @ gs) @ ws \<and> is_space w \<and> list_all is_space ws
          \<and> lead \<noteq> [] \<and> length lead \<le> 3 \<and> list_all is_digit lead \<and> comma_groups gs \<longrightarrow>
          snd (snd (parse_driver t)) = lead @ gs \<and> fst (snd (parse_driver t)) = js_trim p)
    \<and> (snd (snd (parse_driver t)) \<noteq> [] \<longrightarrow>
          (\<exists>p w ws. u = p @ [w] @ snd (snd (parse_driver t)) @ ws \<and> is_space w
             \<and> list_all is_space ws \<and> fst (snd (parse_driver t)) = js_trim p))
    \<and> (snd (snd (parse_driver t)) = [] \<longrightarrow> fst (snd (parse_driver t)) = u)
    \<and> (\<exists>a b c. list_all is_space a \<and> list_all is_space b \<and> list_all is_space c
          \<and> t = fst (parse_driver t) @ a @ fst (snd (parse_driver t)) @ b
                @ snd (snd (parse_driver t)) @ c
          \<and> (fst (parse_driver t) \<noteq> [] \<longrightarrow> a \<noteq> [])
          \<and> (snd (snd (parse_driver t)) \<noteq> [] \<longrightarrow> b \<noteq> []))
    \<and> (snd (snd (parse_driver t)) \<noteq> [] \<longrightarrow>
          (\<exists>lead gs. snd (snd (parse_driver t)) = lead @ gs \<and> lead \<noteq> [] \<and> length lead \<le> 3
             \<and> list_all is_digit lead \<and> comma_groups gs))
    \<and> (\<forall>page rws rw. fetchSimgridStandings page = Inr rws \<and> rw \<in> set rws \<longrightarrow> driver rw \<noteq> [])"
proof (intro conjI allI impI)
  show "simgrid_row_of r = None \<longleftrightarrow> fst (snd (parse_driver t)) = []"
    unfolding t_def by (rule simgrid_row_of_None)
  show "flagEmojiToTwemojiPng [] = []" by (simp add: flagEmojiToTwemojiPng_def)
  show "\<exists>a b c. list_all is_space a \<and> list_all is_space b \<and> list_all is_space c
          \<and> t = fst (parse_driver t) @ a @ fst (snd (parse_driver t)) @ b
                @ snd (snd (parse_driver t)) @ c
          \<and> (fst (parse_driver t) \<noteq> [] \<longrightarrow> a \<noteq> [])
          \<and> (snd (snd (parse_driver t)) \<noteq> [] \<longrightarrow> b \<noteq> [])"
    by (rule parse_driver_decomp)
next
  fix rw assume a: "simgrid_row_of r = Some rw"
  show "driver rw = fst (snd (parse_driver t))" unfolding t_def by (rule simgrid_row_of_Some(1)[OF a])
  show "rating rw = snd (snd (parse_driver t))" unfolding t_def by (rule simgrid_row_of_Some(2)[OF a])
  show "countryImg rw = flagEmojiToTwemojiPng (fst (parse_driver t))"
    unfolding t_def by (rule simgrid_row_of_Some(3)[OF a])
  show "driver rw \<noteq> []" by (rule simgrid_row_of_Some(4)[OF a])
next
  fix f1 f2 w rest
  assume a: "t = f1 # f2 # w # rest \<and> is_ri f1 \<and> is_ri f2 \<and> is_space w"
  then have "fst (parse_driver (f1 # f2 # w # rest)) = [f1, f2]"
    by (intro parse_driver_flag_found) simp_all
  with a show "fst (parse_driver t) = [f1, f2]" by simp
  show "flagEmojiToTwemojiPng [f1, f2] =
              js ''https://cdnjs.cloudflare.com/ajax/libs/twemoji/14.0.2/72x72/''
                @ hex f1 @ js ''-'' @ hex f2 @ js ''.png''"
    by (rule twemoji_pair)
next
  assume "fst (parse_driver t) \<noteq> []"
  then show "\<exists>f1 f2 w rest. t = f1 # f2 # w # rest \<and> is_ri f1 \<and> is_ri f2 \<and> is_space w"
    by (rule parse_driver_flag_only_if)
next
  fix p w lead gs ws
  assume a: "u = p @ [w] @ (lead @ gs) @ ws \<and> is_space w \<and> list_all is_space ws
          \<and> lead \<noteq> [] \<and> length lead \<le> 3 \<and> list_all is_digit lead \<and> comma_groups gs"
  then have u: "(if fst (parse_driver t) = [] then t else js_trim (drop 2 t))
             = p @ [w] @ (lead @ gs) @ ws"
    unfolding u_def by blast
  from a have h: "is_space w" "list_all is_space ws" "lead \<noteq> []" "length lead \<le> 3"
    "list_all is_digit lead" "comma_groups gs" by blast+
  show "snd (snd (parse_driver t)) = lead @ gs"
    by (rule parse_driver_rating_found(1)[OF u h])
  show "fst (snd (parse_driver t)) = js_trim p"
    by (rule parse_driver_rating_found(2)[OF u h])
next
  assume "snd (snd (parse_driver t)) \<noteq> []"
  then show "\<exists>p w ws. u = p @ [w] @ snd (snd (parse_driver t)) @ ws \<and> is_space w
             \<and> list_all is_space ws \<and> fst (snd (parse_driver t)) = js_trim p"
    unfolding u_def by (rule parse_driver_rating_where)
next
  assume "snd (snd (parse_driver t)) = []"
  then show "fst (snd (parse_driver t)) = u"
    unfolding u_def by (rule parse_driver_no_rating)
next
  assume "snd (snd (parse_driver t)) \<noteq> []"
  then show "\<exists>lead gs. snd (snd (parse_driver t)) = lead @ gs \<and> lead \<noteq> [] \<and> length lead \<le> 3
             \<and> list_all is_digit lead \<and> comma_groups gs"
    by (rule parse_driver_rating_form)
next
  fix page rws rw
  assume "fetchSimgridStandings page = Inr rws \<and> rw \<in> set rws"
  then show "driver rw \<noteq> []" using fetched_rows_have_driver by blast
qed

lemma demo_clean:
  "cleanText ([127462, 127482, 32] @ js ''Max V 2,202'') = [127462, 127482, 32] @ js ''Max V 2,202''"
  "cleanText [127462, 127482, 77, 97, 120] = [127462, 127482, 77, 97, 120]"
  by (simp_all add: cleanText_def js_def js_trim_def is_space_def)

lemma demo_parse:
  "parse_driver ([127462, 127482, 32] @ js ''Max V 2,202'')
     = ([127462, 127482], js ''Max V'', js ''2,202'')"
  "parse_driver [127462, 127482, 77, 97, 120] = ([], [127462, 127482, 77, 97, 120], [])"
  by (simp_all add: parse_driver_def flag_match_def is_ri_def is_space_def js_def js_trim_def
      rating_tail_def is_digit_def)

lemma demo_row_some:
  "\<exists>rw. simgrid_row_of (demo_entrant ([127462, 127482, 32] @ js ''Max V 2,202'')) = Some rw"
proof -
  have n: "sg_entrant_name (demo_entrant ([127462, 127482, 32] @ js ''Max V 2,202''))
      = [127462, 127482, 32] @ js ''Max V 2,202''"
    by (simp add: demo_entrant_def)
  have "simgrid_row_of (demo_entrant ([127462, 127482, 32] @ js ''Max V 2,202'')) \<noteq> None"
    unfolding simgrid_row_of_None n demo_clean demo_parse by (simp add: js_def)
  then show ?thesis by blast
qed

theorem C10_simgrid_driver_witness:
  "is_ri 127462 \<and> is_ri 127482 \<and> is_space 32
   \<and> list_all is_digit (js ''2'') \<and> comma_groups (js '',202'')
   \<and> map_option driver (simgrid_row_of (demo_entrant ([127462, 127482, 32] @ js ''Max V 2,202'')))
       = Some (js ''Max V'')
   \<and> map_option rating (simgrid_row_of (demo_entrant ([127462, 127482, 32] @ js ''Max V 2,202'')))
       = Some (js ''2'' @ js '',202'')
   \<and> map_option countryImg
        (simgrid_row_of (demo_entrant ([127462, 127482, 32] @ js ''Max V 2,202'')))
       = Some (js ''https://cdnjs.cloudflare.com/ajax/libs/twemoji/14.0.2/72x72/1f1e6-1f1fa.png'')"
proof -
  let ?name = "[127462, 127482, 32] @ js ''Max V 2,202''"
  let ?t = "cleanText (sg_entrant_name (demo_entrant ?name))"
  note A = C10_simgrid_driver[where r="demo_entrant ?name"]
  note A2 = A[THEN conjunct2, THEN conjunct1, rule_format]
  note A3 = A[THEN conjunct2, THEN conjunct2, THEN conjunct1, rule_format]
  note A6 = A[THEN conjunct2, THEN conjunct2, THEN conjunct2, THEN conjunct2, THEN conjunct2,
              THEN conjunct1, rule_format]
  have n: "sg_entrant_name (demo_entrant ?name) = ?name" by (simp add: demo_entrant_def)
  have h: "is_ri 127462" "is_ri 127482" "is_space 32" by (simp_all add: is_ri_def is_space_def)
  have g: "list_all is_digit (js ''2'')" "comma_groups (js '',202'')"
    by (simp_all add: js_def is_digit_def)
  have t: "?t = 127462 # 127482 # 32 # js ''Max V 2,202''"
    unfolding n demo_clean by simp
  have th: "?t = 127462 # 127482 # 32 # js ''Max V 2,202''
      \<and> is_ri 127462 \<and> is_ri 127482 \<and> is_space 32"
    using t h by blast
  have f: "fst (parse_driver ?t) = [127462, 127482]"
    and url: "flagEmojiToTwemojiPng [127462, 127482] =
      js ''https://cdnjs.cloudflare.com/ajax/libs/twemoji/14.0.2/72x72/''
        @ hex 127462 @ js ''-'' @ hex 127482 @ js ''.png''"
    using A3[OF th] by blast+
  have u: "(if fst (parse_driver ?t) = [] then ?t else js_trim (drop 2 ?t))
      = js ''Max V'' @ [32] @ (js ''2'' @ js '',202'') @ []"
    unfolding f unfolding t by (simp add: js_def js_trim_def is_space_def)
  have hy: "(if fst (parse_driver ?t) = [] then ?t else js_trim (drop 2 ?t))
      = js ''Max V'' @ [32] @ (js ''2'' @ js '',202'') @ [] \<and> is_space 32 \<and> list_all is_space []
      \<and> js ''2'' \<noteq> [] \<and> length (js ''2'') \<le> 3 \<and> list_all is_digit (js ''2'')
      \<and> comma_groups (js '',202'')"
    using u h(3) g by (simp add: js_def)
  have pr: "snd (snd (parse_driver ?t)) = js ''2'' @ js '',202''"
    and pd: "fst (snd (parse_driver ?t)) = js_trim (js ''Max V'')"
    using A6[OF hy] by blast+
  have tr: "js_trim (js ''Max V'') = js ''Max V''" by (simp add: js_def js_trim_def is_space_def)
  from demo_row_some obtain rw where rw: "simgrid_row_of (demo_entrant ?name) = Some rw" by blast
  have "driver rw = fst (snd (parse_driver ?t))"
    and "rating rw = snd (snd (parse_driver ?t))"
    and "countryImg rw = flagEmojiToTwemojiPng (fst (parse_driver ?t))"
    using A2[OF rw] by blast+
  then have d: "driver rw = js ''Max V''" and r: "rating rw = js ''2'' @ js '',202''"
    and c: "countryImg rw = flagEmojiToTwemojiPng [127462, 127482]"
    unfolding pr pd tr f by simp_all
  have "hex 127462 = js ''1f1e6''" "hex 127482 = js ''1f1fa''"
    by (simp_all add: hex.simps hex_digit_def js_def)
  with url have "flagEmojiToTwemojiPng [127462, 127482] =
      js ''https://cdnjs.cloudflare.com/ajax/libs/twemoji/14.0.2/72x72/1f1e6-1f1fa.png''"
    by (simp add: js_def)
  with c d r rw h g show ?thesis by simp
qed

text \<open>
  The claim as stated fails on a driver text whose flag is not followed by white space:
  the text of the entrant link starts with two regional indicators, but the driver
  returned still starts with them and countryImg is empty.
\<close>

theorem C10_claim_counterexample:
  "is_ri 127462 \<and> is_ri 127482
   \<and> map_option driver (simgrid_row_of (demo_entrant [127462, 127482, 77, 97, 120]))
       = Some [127462, 127482, 77, 97, 120]
   \<and> map_option countryImg (simgrid_row_of (demo_entrant [127462, 127482, 77, 97, 120]))
       = Some []"
proof -
  let ?name = "[127462, 127482, 77, 97, 120]"
  have n: "sg_entrant_name (demo_entrant ?name) = ?name" by (simp add: demo_entrant_def)
  have "simgrid_row_of (demo_entrant ?name) \<noteq> None"
    unfolding simgrid_row_of_None n demo_clean demo_parse by simp
  then obtain rw where rw: "simgrid_row_of (demo_entrant ?name) = Some rw" by blast
  from simgrid_row_of_Some[OF rw] have "driver rw = ?name" "countryImg rw = []"
    unfolding n demo_clean demo_parse by (simp_all add: flagEmojiToTwemojiPng_def)
  with rw show ?thesis by (simp add: is_ri_def)
qed

end
